theory Spec2Isabelle
  imports Main "HOL-Library.Word"
begin

section \<open>Engine values\<close>

text \<open>
  The module \<^verbatim>\<open>module.c\<close> bridges CPython and the QuickJS engine. The engine itself
  (\<^verbatim>\<open>third-party/quickjs.h\<close>) is a collaborator whose code is not part of the module.
  Its value representation and its reference counting are modelled here from the
  header's documented interface; its interpreter (calls, evaluation, property reads,
  string conversion) is a parameter of every function of the module, see \<open>engine\<close> below.
\<close>

text \<open>
  Modelled from the spec: the tags of \<^verbatim>\<open>quickjs.h\<close> that the module dispatches on. Every
  other tag of the header is \<open>JS_TAG_OTHER n\<close>, with its number.
\<close>

datatype js_tag =
    JS_TAG_INT
  | JS_TAG_BOOL
  | JS_TAG_NULL
  | JS_TAG_UNDEFINED
  | JS_TAG_EXCEPTION
  | JS_TAG_FLOAT64
  | JS_TAG_STRING
  | JS_TAG_OBJECT
  | JS_TAG_OTHER int

text \<open>
  A \<^verbatim>\<open>JSValue\<close> is the struct \<^verbatim>\<open>{ JSValueUnion u; tag }\<close>. A double is kept as its 64-bit
  pattern: the module only copies doubles, it never computes with them. A pointer is the
  address of a reference-counted cell of the engine heap.
\<close>

datatype JSValueUnion = Int32 "32 word" | Float64 "64 word" | Ptr nat

datatype JSValue = JSValue (u: JSValueUnion) (tag: js_tag)

definition JS_MKVAL :: "js_tag \<Rightarrow> 32 word \<Rightarrow> JSValue" where
  "JS_MKVAL t val = JSValue (Int32 val) t"

definition JS_NULL :: JSValue where
  "JS_NULL = JS_MKVAL JS_TAG_NULL 0"

definition JS_UNDEFINED :: JSValue where
  "JS_UNDEFINED = JS_MKVAL JS_TAG_UNDEFINED 0"

definition JS_EXCEPTION :: JSValue where
  "JS_EXCEPTION = JS_MKVAL JS_TAG_EXCEPTION 0"

definition JS_VALUE_GET_TAG :: "JSValue \<Rightarrow> js_tag" where
  "JS_VALUE_GET_TAG v = tag v"

text \<open>Reading a member of the union that was not the one written yields the low bits.\<close>

definition JS_VALUE_GET_INT :: "JSValue \<Rightarrow> 32 word" where
  "JS_VALUE_GET_INT v =
     (case u v of Int32 i \<Rightarrow> i | Float64 d \<Rightarrow> ucast d | Ptr p \<Rightarrow> of_nat p)"

definition JS_VALUE_GET_BOOL :: "JSValue \<Rightarrow> 32 word" where
  "JS_VALUE_GET_BOOL v = JS_VALUE_GET_INT v"

definition JS_VALUE_GET_FLOAT64 :: "JSValue \<Rightarrow> 64 word" where
  "JS_VALUE_GET_FLOAT64 v =
     (case u v of Float64 d \<Rightarrow> d | Int32 i \<Rightarrow> ucast i | Ptr p \<Rightarrow> of_nat p)"

definition JS_VALUE_GET_PTR :: "JSValue \<Rightarrow> nat" where
  "JS_VALUE_GET_PTR v =
     (case u v of Ptr p \<Rightarrow> p | Int32 i \<Rightarrow> unat i | Float64 d \<Rightarrow> unat d)"

text \<open>
  Modelled from the spec: the reference-counted kinds are the ones with a negative tag
  (strings, objects, and the header's other heap kinds).
\<close>

fun JS_VALUE_HAS_REF_COUNT :: "JSValue \<Rightarrow> bool" where
  "JS_VALUE_HAS_REF_COUNT (JSValue _ JS_TAG_STRING) = True"
| "JS_VALUE_HAS_REF_COUNT (JSValue _ JS_TAG_OBJECT) = True"
| "JS_VALUE_HAS_REF_COUNT (JSValue _ (JS_TAG_OTHER n)) = (n < 0)"
| "JS_VALUE_HAS_REF_COUNT (JSValue _ _) = False"

text \<open>Modelled from the spec: \<^verbatim>\<open>JS_NewFloat64\<close> builds a value of the Float64 kind.\<close>

definition JS_NewFloat64 :: "nat \<Rightarrow> 64 word \<Rightarrow> JSValue" where
  "JS_NewFloat64 ctx d = JSValue (Float64 d) JS_TAG_FLOAT64"

section \<open>Engine state\<close>

text \<open>
  The engine heap is a set of reference-counted cells: \<open>ref_count\<close> is the header's
  counter, \<open>str_data\<close> the bytes of a string cell, \<open>next_ptr\<close> the next free address.
  \<open>current_exception\<close> is the pending-exception slot of each context (\<open>None\<close>: clear).
  A context is identified by the address of its \<^verbatim>\<open>ContextData\<close>: the module creates
  exactly one engine context and one runtime for each.
\<close>

record js_state =
  ref_count :: "nat \<Rightarrow> int"
  str_data :: "nat \<Rightarrow> string"
  next_ptr :: nat
  current_exception :: "nat \<Rightarrow> JSValue option"

text \<open>
  The interpreter, as a parameter: what the engine does when it is asked to call a
  value, evaluate a script, read the global object or a property, or convert a value
  to a string. Each returns the result and the engine state it leaves.
\<close>

record engine =
  JS_Call_impl :: "nat \<Rightarrow> JSValue \<Rightarrow> JSValue \<Rightarrow> JSValue list \<Rightarrow> js_state \<Rightarrow> JSValue \<times> js_state"
  JS_Eval_impl :: "nat \<Rightarrow> string \<Rightarrow> js_state \<Rightarrow> JSValue \<times> js_state"
  JS_GetGlobalObject_impl :: "nat \<Rightarrow> js_state \<Rightarrow> JSValue \<times> js_state"
  JS_GetPropertyStr_impl :: "nat \<Rightarrow> JSValue \<Rightarrow> string \<Rightarrow> js_state \<Rightarrow> JSValue \<times> js_state"
  JS_ToString_impl :: "nat \<Rightarrow> JSValue \<Rightarrow> js_state \<Rightarrow> JSValue \<times> js_state"

text \<open>
  Every call the module makes into the engine's state is recorded, in order. An
  operation that returns an engine value is recorded with that value, as its last
  argument: the caller owns the reference that comes with it.
\<close>

datatype js_op =
    OpNewString nat string JSValue
  | OpDupValue nat JSValue
  | OpFreeValue nat JSValue
  | OpCall nat JSValue JSValue "JSValue list" JSValue
  | OpEval nat string JSValue
  | OpGetGlobalObject nat JSValue
  | OpGetPropertyStr nat JSValue string JSValue
  | OpGetException nat JSValue
  | OpToString nat JSValue JSValue
  | OpToCString nat JSValue
  | OpFreeCString nat
  | OpFreeContext nat
  | OpFreeRuntime nat

section \<open>Host state\<close>

datatype py_exc =
    JSException | ValueError | TypeError | OverflowError | UnicodeEncodeError | UnicodeDecodeError

text \<open>
  \<open>ob_refcnt\<close> is the host's reference count of each \<^verbatim>\<open>ContextData\<close>;
  \<open>err_indicator\<close> is CPython's error indicator, set by \<^verbatim>\<open>PyErr_Format\<close>: a function
  raises by setting it and returning \<^verbatim>\<open>NULL\<close>. Of a Unicode error, which CPython builds
  from a codec, a position and a reason, the kind is kept and the message is left empty.
\<close>

record state =
  js :: js_state
  ob_refcnt :: "nat \<Rightarrow> int"
  err_indicator :: "(py_exc \<times> string) option"
  trace :: "js_op list"

text \<open>
  The data of the type \<^verbatim>\<open>_quickjs.Object\<close>: a nullable pointer to the \<^verbatim>\<open>ContextData\<close>
  and the wrapped engine value (the fields \<^verbatim>\<open>context\<close> and \<^verbatim>\<open>object\<close> of the struct).
\<close>

record ObjectData =
  od_context :: "nat option"
  od_object :: JSValue

text \<open>
  The host values by kind. \<open>PyOther n\<close> is an object of any other type, \<open>n\<close> its
  \<^verbatim>\<open>tp_name\<close>. A text is its list of code points; a host text may hold any code point
  below \<open>0x110000\<close>, the surrogates \<open>0xD800\<close> to \<open>0xDFFF\<close> among them.
\<close>

datatype PyObject =
    Py_Bool bool
  | PyLong int
  | PyFloat "64 word"
  | Py_None
  | PyUnicode "nat list"
  | PyObject_Object ObjectData
  | PyOther string

text \<open>A dereference of \<^verbatim>\<open>NULL\<close> ends the process: no host error, no state.\<close>

datatype fault = NULL_dereference

type_synonym py_return = "fault + (PyObject option \<times> state)"

subsection \<open>Type checks of the host\<close>

fun PyBool_Check :: "PyObject \<Rightarrow> bool" where
  "PyBool_Check (Py_Bool _) = True"
| "PyBool_Check _ = False"

text \<open>The host's \<^verbatim>\<open>bool\<close> is a subclass of \<^verbatim>\<open>int\<close>: a boolean passes the integer check.\<close>

fun PyLong_Check :: "PyObject \<Rightarrow> bool" where
  "PyLong_Check (PyLong _) = True"
| "PyLong_Check (Py_Bool _) = True"
| "PyLong_Check _ = False"

fun PyFloat_Check :: "PyObject \<Rightarrow> bool" where
  "PyFloat_Check (PyFloat _) = True"
| "PyFloat_Check _ = False"

fun PyUnicode_Check :: "PyObject \<Rightarrow> bool" where
  "PyUnicode_Check (PyUnicode _) = True"
| "PyUnicode_Check _ = False"

fun PyObject_IsInstance_Object :: "PyObject \<Rightarrow> bool" where
  "PyObject_IsInstance_Object (PyObject_Object _) = True"
| "PyObject_IsInstance_Object _ = False"

fun tp_name :: "PyObject \<Rightarrow> string" where
  "tp_name (Py_Bool _) = ''bool''"
| "tp_name (PyLong _) = ''int''"
| "tp_name (PyFloat _) = ''float''"
| "tp_name Py_None = ''NoneType''"
| "tp_name (PyUnicode _) = ''str''"
| "tp_name (PyObject_Object _) = ''_quickjs.Object''"
| "tp_name (PyOther n) = n"

subsection \<open>C strings and formatting\<close>

text \<open>A C string ends at its first NUL byte.\<close>

definition c_str :: "string \<Rightarrow> string" where
  "c_str bs = takeWhile (\<lambda>c. c \<noteq> CHR 0x00) bs"

definition digit_char :: "nat \<Rightarrow> char" where
  "digit_char d = ''0123456789'' ! d"

fun show_nat :: "nat \<Rightarrow> string" where
  "show_nat n = (if n < 10 then [digit_char n] else show_nat (n div 10) @ [digit_char (n mod 10)])"

declare show_nat.simps [simp del]

definition show_int :: "int \<Rightarrow> string" where
  "show_int i = (if i < 0 then CHR ''-'' # show_nat (nat (- i)) else show_nat (nat i))"


definition PyErr_Format :: "py_exc \<Rightarrow> string \<Rightarrow> state \<Rightarrow> state" where
  "PyErr_Format exc msg s = s\<lparr>err_indicator := Some (exc, msg)\<rparr>"

text \<open>
  \<^verbatim>\<open>PyLong_AsLong\<close> on a 64-bit \<^verbatim>\<open>long\<close>: out of range it returns -1 and sets
  \<^verbatim>\<open>OverflowError\<close>.
\<close>

definition PyLong_AsLong :: "PyObject \<Rightarrow> state \<Rightarrow> 64 word \<times> state" where
  "PyLong_AsLong item s =
     (case item of
        PyLong n \<Rightarrow>
          if - (2 ^ 63) \<le> n \<and> n < 2 ^ 63 then (word_of_int n, s)
          else (- 1, PyErr_Format OverflowError ''Python int too large to convert to C long'' s)
      | Py_Bool b \<Rightarrow> (if b then 1 else 0, s)
      | _ \<Rightarrow> (- 1, PyErr_Format TypeError ''an integer is required'' s))"

definition PyFloat_AsDouble :: "PyObject \<Rightarrow> 64 word" where
  "PyFloat_AsDouble item = (case item of PyFloat d \<Rightarrow> d | _ \<Rightarrow> 0)"

subsection \<open>UTF-8\<close>

text \<open>
  The host encodes a text as UTF-8 to pass it to the engine, and decodes the engine's
  UTF-8 strictly to build a text. A surrogate has no encoding; an overlong form, an
  encoded surrogate, a stray or missing continuation byte do not decode.
\<close>

definition surrogate :: "nat \<Rightarrow> bool" where
  "surrogate cp = (55296 \<le> cp \<and> cp < 57344)"

definition utf8_encode_char :: "nat \<Rightarrow> string option" where
  "utf8_encode_char cp =
     (if cp < 128 then Some [char_of cp]
      else if cp < 2048 then Some [char_of (192 + cp div 64), char_of (128 + cp mod 64)]
      else if surrogate cp then None
      else if cp < 65536 then
        Some [char_of (224 + cp div 4096), char_of (128 + cp div 64 mod 64), char_of (128 + cp mod 64)]
      else if cp < 1114112 then
        Some [char_of (240 + cp div 262144), char_of (128 + cp div 4096 mod 64),
              char_of (128 + cp div 64 mod 64), char_of (128 + cp mod 64)]
      else None)"

fun utf8_encode :: "nat list \<Rightarrow> string option" where
  "utf8_encode [] = Some []"
| "utf8_encode (cp # cps) =
     (case utf8_encode_char cp of
        None \<Rightarrow> None
      | Some bs \<Rightarrow> map_option ((@) bs) (utf8_encode cps))"

definition continuation :: "char \<Rightarrow> bool" where
  "continuation b = (128 \<le> (of_char b :: nat) \<and> (of_char b :: nat) < 192)"

definition payload :: "char \<Rightarrow> nat" where
  "payload b = of_char b - 128"

text \<open>
  The decoder reads byte by byte: \<open>need\<close> continuation bytes are still due for the code
  point whose high bits are \<open>acc\<close>, and which must not be below \<open>lo\<close>.
\<close>

fun utf8_scan :: "nat \<Rightarrow> nat \<Rightarrow> nat \<Rightarrow> string \<Rightarrow> nat list option" where
  "utf8_scan need acc lo [] = (if need = 0 then Some [] else None)"
| "utf8_scan need acc lo (b # bs) =
     (if need = 0 then
        (if (of_char b :: nat) < 128 then map_option ((#) (of_char b)) (utf8_scan 0 0 0 bs)
         else if 192 \<le> (of_char b :: nat) \<and> (of_char b :: nat) < 224 then
           utf8_scan 1 (of_char b - 192) 128 bs
         else if 224 \<le> (of_char b :: nat) \<and> (of_char b :: nat) < 240 then
           utf8_scan 2 (of_char b - 224) 2048 bs
         else if 240 \<le> (of_char b :: nat) \<and> (of_char b :: nat) < 248 then
           utf8_scan 3 (of_char b - 240) 65536 bs
         else None)
      else if continuation b then
        (if need = 1 then
           (if lo \<le> acc * 64 + payload b \<and> \<not> surrogate (acc * 64 + payload b) \<and>
               acc * 64 + payload b < 1114112
            then map_option ((#) (acc * 64 + payload b)) (utf8_scan 0 0 0 bs)
            else None)
         else utf8_scan (need - 1) (acc * 64 + payload b) lo bs)
      else None)"

definition utf8_decode :: "string \<Rightarrow> nat list option" where
  "utf8_decode bs = utf8_scan 0 0 0 bs"

text \<open>
  \<^verbatim>\<open>PyUnicode_AsUTF8\<close>: the UTF-8 buffer of a text, or \<^verbatim>\<open>NULL\<close> with \<^verbatim>\<open>UnicodeEncodeError\<close>
  set when the text has no encoding.
\<close>

definition PyUnicode_AsUTF8 :: "PyObject \<Rightarrow> state \<Rightarrow> string option \<times> state" where
  "PyUnicode_AsUTF8 item s =
     (case item of
        PyUnicode t \<Rightarrow>
          (case utf8_encode t of
             None \<Rightarrow> (None, PyErr_Format UnicodeEncodeError [] s)
           | Some bs \<Rightarrow> (Some bs, s))
      | _ \<Rightarrow> (None, PyErr_Format TypeError ''bad argument type for built-in operation'' s))"

text \<open>The text of an ASCII string.\<close>

definition ascii :: "string \<Rightarrow> nat list" where
  "ascii bs = map of_char bs"

section \<open>Engine operations on the state\<close>

definition log_op :: "js_op \<Rightarrow> state \<Rightarrow> state" where
  "log_op e s = s\<lparr>trace := trace s @ [e]\<rparr>"

text \<open>
  Modelled from the spec: duplicating a reference-counted value increments the counter
  of its cell, freeing it decrements the counter; other values are untouched.
\<close>

definition JS_DupValue :: "nat \<Rightarrow> JSValue \<Rightarrow> state \<Rightarrow> JSValue \<times> state" where
  "JS_DupValue ctx v s =
     (v, log_op (OpDupValue ctx v)
          (if JS_VALUE_HAS_REF_COUNT v
           then s\<lparr>js := (js s)\<lparr>ref_count := (ref_count (js s))
                  (JS_VALUE_GET_PTR v := ref_count (js s) (JS_VALUE_GET_PTR v) + 1)\<rparr>\<rparr>
           else s))"

definition JS_FreeValue :: "nat \<Rightarrow> JSValue \<Rightarrow> state \<Rightarrow> state" where
  "JS_FreeValue ctx v s =
     log_op (OpFreeValue ctx v)
       (if JS_VALUE_HAS_REF_COUNT v
        then s\<lparr>js := (js s)\<lparr>ref_count := (ref_count (js s))
               (JS_VALUE_GET_PTR v := ref_count (js s) (JS_VALUE_GET_PTR v) - 1)\<rparr>\<rparr>
        else s)"

text \<open>
  Modelled from the spec: \<^verbatim>\<open>JS_NewString\<close> copies a C string into a fresh cell that the
  caller owns (counter 1).
\<close>

definition JS_NewString :: "nat \<Rightarrow> string \<Rightarrow> state \<Rightarrow> JSValue \<times> state" where
  "JS_NewString ctx str s =
     (let p = next_ptr (js s) in
      (JSValue (Ptr p) JS_TAG_STRING,
       log_op (OpNewString ctx (c_str str) (JSValue (Ptr p) JS_TAG_STRING))
         (s\<lparr>js := (js s)\<lparr>ref_count := (ref_count (js s))(p := 1),
                          str_data := (str_data (js s))(p := c_str str),
                          next_ptr := Suc p\<rparr>\<rparr>)))"

text \<open>
  Modelled from the spec: \<^verbatim>\<open>JS_GetException\<close> fetches and clears the pending exception
  (\<^verbatim>\<open>JS_NULL\<close> when the slot is clear).
\<close>

definition JS_GetException :: "nat \<Rightarrow> state \<Rightarrow> JSValue \<times> state" where
  "JS_GetException ctx s =
     (let e = (case current_exception (js s) ctx of None \<Rightarrow> JS_NULL | Some e \<Rightarrow> e)
      in (e, log_op (OpGetException ctx e)
               (s\<lparr>js := (js s)\<lparr>current_exception := (current_exception (js s))(ctx := None)\<rparr>\<rparr>)))"

text \<open>
  Modelled from the spec: \<^verbatim>\<open>JS_ToCString\<close> gives the bytes of a string value and
  \<^verbatim>\<open>NULL\<close> for the exception marker (and any value that is not a string).
\<close>

definition JS_ToCString :: "nat \<Rightarrow> JSValue \<Rightarrow> state \<Rightarrow> string option \<times> state" where
  "JS_ToCString ctx v s =
     ((if JS_VALUE_GET_TAG v = JS_TAG_STRING then Some (str_data (js s) (JS_VALUE_GET_PTR v))
       else None),
      log_op (OpToCString ctx v) s)"

definition JS_FreeCString :: "nat \<Rightarrow> state \<Rightarrow> state" where
  "JS_FreeCString ctx s = log_op (OpFreeCString ctx) s"

text \<open>The interpreter's operations: recorded, then run by the engine on its own state.\<close>

definition JS_Call :: "engine \<Rightarrow> nat \<Rightarrow> JSValue \<Rightarrow> JSValue \<Rightarrow> JSValue list \<Rightarrow> state \<Rightarrow> JSValue \<times> state" where
  "JS_Call E ctx func_obj this_obj argv s =
     (let (r, j) = JS_Call_impl E ctx func_obj this_obj argv (js s)
      in (r, log_op (OpCall ctx func_obj this_obj argv r) (s\<lparr>js := j\<rparr>)))"

definition JS_Eval :: "engine \<Rightarrow> nat \<Rightarrow> string \<Rightarrow> state \<Rightarrow> JSValue \<times> state" where
  "JS_Eval E ctx code s =
     (let (r, j) = JS_Eval_impl E ctx code (js s)
      in (r, log_op (OpEval ctx code r) (s\<lparr>js := j\<rparr>)))"

definition JS_GetGlobalObject :: "engine \<Rightarrow> nat \<Rightarrow> state \<Rightarrow> JSValue \<times> state" where
  "JS_GetGlobalObject E ctx s =
     (let (r, j) = JS_GetGlobalObject_impl E ctx (js s)
      in (r, log_op (OpGetGlobalObject ctx r) (s\<lparr>js := j\<rparr>)))"

definition JS_GetPropertyStr :: "engine \<Rightarrow> nat \<Rightarrow> JSValue \<Rightarrow> string \<Rightarrow> state \<Rightarrow> JSValue \<times> state" where
  "JS_GetPropertyStr E ctx obj prop s =
     (let (r, j) = JS_GetPropertyStr_impl E ctx obj prop (js s)
      in (r, log_op (OpGetPropertyStr ctx obj prop r) (s\<lparr>js := j\<rparr>)))"

definition JS_ToString :: "engine \<Rightarrow> nat \<Rightarrow> JSValue \<Rightarrow> state \<Rightarrow> JSValue \<times> state" where
  "JS_ToString E ctx v s =
     (let (r, j) = JS_ToString_impl E ctx v (js s)
      in (r, log_op (OpToString ctx v r) (s\<lparr>js := j\<rparr>)))"

section \<open>The module\<close>

subsection \<open>Reference counts of the host\<close>

definition Py_INCREF :: "nat \<Rightarrow> state \<Rightarrow> state" where
  "Py_INCREF c s = s\<lparr>ob_refcnt := (ob_refcnt s)(c := ob_refcnt s c + 1)\<rparr>"

text \<open>\<^verbatim>\<open>context_dealloc\<close>: the context is torn down, then the runtime.\<close>

definition context_dealloc :: "nat \<Rightarrow> state \<Rightarrow> state" where
  "context_dealloc self s = log_op (OpFreeRuntime self) (log_op (OpFreeContext self) s)"

text \<open>
  \<^verbatim>\<open>Py_DECREF\<close> of a \<^verbatim>\<open>ContextData\<close>: the count is decremented, and the object is
  deallocated when it reaches zero.
\<close>

definition Py_DECREF :: "nat \<Rightarrow> state \<Rightarrow> state" where
  "Py_DECREF c s =
     (let s1 = s\<lparr>ob_refcnt := (ob_refcnt s)(c := ob_refcnt s c - 1)\<rparr>
      in if ob_refcnt s1 c = 0 then context_dealloc c s1 else s1)"

subsection \<open>The Object type\<close>

text \<open>
  \<^verbatim>\<open>object_new\<close>: the allocator zero-fills the struct (tag 0 is the integer tag), then
  the context pointer is set to \<^verbatim>\<open>NULL\<close>.
\<close>

definition object_new :: ObjectData where
  "object_new = \<lparr>od_context = None, od_object = JSValue (Int32 0) JS_TAG_INT\<rparr>"

definition object_dealloc :: "ObjectData \<Rightarrow> state \<Rightarrow> state" where
  "object_dealloc self s =
     (case od_context self of
        None \<Rightarrow> s
      | Some c \<Rightarrow> Py_DECREF c (JS_FreeValue c (od_object self) s))"

subsection \<open>Converting an engine value to a host value\<close>

text \<open>
  \<^verbatim>\<open>Py_BuildValue("s", cstring)\<close> decodes a C string as UTF-8, and gives \<^verbatim>\<open>None\<close> for
  \<^verbatim>\<open>NULL\<close>. For bytes that do not decode it returns \<^verbatim>\<open>NULL\<close> with \<^verbatim>\<open>UnicodeDecodeError\<close> set.
\<close>

definition Py_BuildValue_s :: "string option \<Rightarrow> state \<Rightarrow> PyObject option \<times> state" where
  "Py_BuildValue_s cstring s =
     (case cstring of
        None \<Rightarrow> (Some Py_None, s)
      | Some bs \<Rightarrow>
          (case utf8_decode (c_str bs) of
             None \<Rightarrow> (None, PyErr_Format UnicodeDecodeError [] s)
           | Some t \<Rightarrow> (Some (PyUnicode t), s)))"

text \<open>
  The chain of tests on the tag in \<^verbatim>\<open>quickjs_to_python\<close>. The result \<open>None\<close> is the
  \<^verbatim>\<open>NULL\<close> return value, with the error indicator set. In the exception branch the C
  string is formatted with \<^verbatim>\<open>%s\<close> without a test for \<^verbatim>\<open>NULL\<close>.
\<close>

definition to_python_by_tag :: "engine \<Rightarrow> nat \<Rightarrow> JSValue \<Rightarrow> state \<Rightarrow> py_return" where
  "to_python_by_tag E context_obj val s =
     (let tg = JS_VALUE_GET_TAG val in
      if tg = JS_TAG_INT then Inr (Some (PyLong (sint (JS_VALUE_GET_INT val))), s)
      else if tg = JS_TAG_BOOL then Inr (Some (Py_Bool (JS_VALUE_GET_BOOL val \<noteq> 0)), s)
      else if tg = JS_TAG_NULL then Inr (Some Py_None, s)
      else if tg = JS_TAG_UNDEFINED then Inr (Some Py_None, s)
      else if tg = JS_TAG_EXCEPTION then
        (let (exception, s1) = JS_GetException context_obj s;
             (error_string, s2) = JS_ToString E context_obj exception s1;
             (cstring, s3) = JS_ToCString context_obj error_string s2
         in case cstring of
              None \<Rightarrow> Inl NULL_dereference
            | Some bs \<Rightarrow>
                Inr (None,
                  JS_FreeValue context_obj exception
                    (JS_FreeValue context_obj error_string
                      (JS_FreeCString context_obj
                        (PyErr_Format JSException (c_str bs) s3)))))
      else if tg = JS_TAG_FLOAT64 then Inr (Some (PyFloat (JS_VALUE_GET_FLOAT64 val)), s)
      else if tg = JS_TAG_STRING then
        (let (cstring, s1) = JS_ToCString context_obj val s;
             (return_value, s2) = Py_BuildValue_s cstring s1
         in Inr (return_value, JS_FreeCString context_obj s2))
      else if tg = JS_TAG_OBJECT then
        (let s1 = Py_INCREF context_obj s;
             (obj, s2) = JS_DupValue context_obj val s1
         in Inr (Some (PyObject_Object (object_new\<lparr>od_context := Some context_obj, od_object := obj\<rparr>)), s2))
      else
        Inr (None, PyErr_Format ValueError
               (''Unknown quickjs tag: '' @ (case tg of JS_TAG_OTHER n \<Rightarrow> show_int n | _ \<Rightarrow> [])) s))"

text \<open>\<^verbatim>\<open>quickjs_to_python\<close> consumes the engine value: it frees it after the conversion.\<close>

definition quickjs_to_python :: "engine \<Rightarrow> nat \<Rightarrow> JSValue \<Rightarrow> state \<Rightarrow> py_return" where
  "quickjs_to_python E context_obj val s =
     (case to_python_by_tag E context_obj val s of
        Inl f \<Rightarrow> Inl f
      | Inr (return_value, s1) \<Rightarrow> Inr (return_value, JS_FreeValue context_obj val s1))"

subsection \<open>Calling a handle\<close>

text \<open>The first loop of \<^verbatim>\<open>object_call\<close>: \<open>Some s'\<close> when it raised and returned \<^verbatim>\<open>NULL\<close>.\<close>

fun validate_args :: "nat \<Rightarrow> PyObject list \<Rightarrow> state \<Rightarrow> state option" where
  "validate_args i [] s = None"
| "validate_args i (item # rest) s =
     (if PyBool_Check item then validate_args (Suc i) rest s
      else if PyLong_Check item then validate_args (Suc i) rest s
      else if PyFloat_Check item then validate_args (Suc i) rest s
      else if item = Py_None then validate_args (Suc i) rest s
      else if PyUnicode_Check item then validate_args (Suc i) rest s
      else if PyObject_IsInstance_Object item then validate_args (Suc i) rest s
      else Some (PyErr_Format ValueError
                   (''Unsupported type of argument '' @ show_nat i @
                    '' when calling quickjs object: '' @ tp_name item @ ''.'') s))"

definition as_ObjectData :: "PyObject \<Rightarrow> ObjectData" where
  "as_ObjectData item = (case item of PyObject_Object d \<Rightarrow> d | _ \<Rightarrow> object_new)"

text \<open>
  The body of the second loop. The result of \<^verbatim>\<open>PyUnicode_AsUTF8\<close> goes to \<^verbatim>\<open>JS_NewString\<close>
  untested, and \<^verbatim>\<open>JS_NewString\<close> reads the string it is given: for \<^verbatim>\<open>NULL\<close> that is a
  dereference of \<^verbatim>\<open>NULL\<close>. The chain has no final \<^verbatim>\<open>else\<close>: for an item of no supported
  kind the slot is not written. The first loop excludes such an item
  (\<open>validate_args_None\<close> below); the model gives the slot \<^verbatim>\<open>JS_UNDEFINED\<close> there.
\<close>

definition convert_item :: "nat \<Rightarrow> PyObject \<Rightarrow> state \<Rightarrow> fault + (JSValue \<times> state)" where
  "convert_item ctx item s =
     (if PyBool_Check item then
        Inr (JS_MKVAL JS_TAG_BOOL (if item = Py_Bool True then 1 else 0), s)
      else if PyLong_Check item then
        (let (l, s1) = PyLong_AsLong item s in Inr (JS_MKVAL JS_TAG_INT (ucast l), s1))
      else if PyFloat_Check item then Inr (JS_NewFloat64 ctx (PyFloat_AsDouble item), s)
      else if item = Py_None then Inr (JS_NULL, s)
      else if PyUnicode_Check item then
        (case PyUnicode_AsUTF8 item s of
           (None, s1) \<Rightarrow> Inl NULL_dereference
         | (Some bs, s1) \<Rightarrow> Inr (JS_NewString ctx bs s1))
      else if PyObject_IsInstance_Object item then
        Inr (JS_DupValue ctx (od_object (as_ObjectData item)) s)
      else Inr (JS_UNDEFINED, s))"

fun convert_args :: "nat \<Rightarrow> PyObject list \<Rightarrow> state \<Rightarrow> fault + (JSValue list \<times> state)" where
  "convert_args ctx [] s = Inr ([], s)"
| "convert_args ctx (item # rest) s =
     (case convert_item ctx item s of
        Inl f \<Rightarrow> Inl f
      | Inr (v, s1) \<Rightarrow>
          (case convert_args ctx rest s1 of
             Inl f \<Rightarrow> Inl f
           | Inr (vs, s2) \<Rightarrow> Inr (v # vs, s2)))"

fun free_args :: "nat \<Rightarrow> JSValue list \<Rightarrow> state \<Rightarrow> state" where
  "free_args ctx [] s = s"
| "free_args ctx (v # vs) s = free_args ctx vs (JS_FreeValue ctx v s)"

definition object_call :: "engine \<Rightarrow> ObjectData \<Rightarrow> PyObject list \<Rightarrow> state \<Rightarrow> py_return" where
  "object_call E self args s =
     (case od_context self of
        None \<Rightarrow> Inr (Some Py_None, s)
      | Some c \<Rightarrow>
          (case validate_args 0 args s of
             Some s' \<Rightarrow> Inr (None, s')
           | None \<Rightarrow>
               (case convert_args c args s of
                  Inl f \<Rightarrow> Inl f
                | Inr (jsargs, s1) \<Rightarrow>
                    (let (val, s2) = JS_Call E c (od_object self) JS_NULL jsargs s1;
                         s3 = free_args c jsargs s2
                     in quickjs_to_python E c val s3))))"

text \<open>\<^verbatim>\<open>object_json\<close> reads \<^verbatim>\<open>self->context->context\<close> first, with no test.\<close>

definition object_json :: "engine \<Rightarrow> ObjectData \<Rightarrow> state \<Rightarrow> py_return" where
  "object_json E self s =
     (case od_context self of
        None \<Rightarrow> Inl NULL_dereference
      | Some c \<Rightarrow>
          (let (global, s1) = JS_GetGlobalObject E c s;
               (JSON, s2) = JS_GetPropertyStr E c global ''JSON'' s1;
               (stringify, s3) = JS_GetPropertyStr E c JSON ''stringify'' s2;
               (json_string, s4) = JS_Call E c stringify JSON [od_object self] s3;
               s5 = JS_FreeValue c global s4;
               s6 = JS_FreeValue c JSON s5;
               s7 = JS_FreeValue c stringify s6
           in quickjs_to_python E c json_string s7))"

subsection \<open>The Context type\<close>

text \<open>
  \<^verbatim>\<open>PyArg_ParseTuple(args, "s", ...)\<close>: the UTF-8 bytes of one text argument that has
  an encoding with no NUL byte, or an error.
\<close>

definition PyArg_ParseTuple_s :: "PyObject list \<Rightarrow> state \<Rightarrow> string option \<times> state" where
  "PyArg_ParseTuple_s args s =
     (case args of
        [PyUnicode t] \<Rightarrow>
          (case utf8_encode t of
             None \<Rightarrow> (None, PyErr_Format UnicodeEncodeError [] s)
           | Some bs \<Rightarrow>
               if CHR 0x00 \<in> set bs then (None, PyErr_Format ValueError ''embedded null character'' s)
               else (Some bs, s))
      | [item] \<Rightarrow>
          (None, PyErr_Format TypeError
                   (''argument 1 must be str, not '' @
                    (if item = Py_None then ''None'' else tp_name item)) s)
      | _ \<Rightarrow> (None, PyErr_Format TypeError
                 (''function takes exactly 1 argument ('' @ show_nat (length args) @ '' given)'') s))"

definition context_eval :: "engine \<Rightarrow> nat \<Rightarrow> PyObject list \<Rightarrow> state \<Rightarrow> py_return" where
  "context_eval E self args s =
     (case PyArg_ParseTuple_s args s of
        (None, s') \<Rightarrow> Inr (None, s')
      | (Some code, s') \<Rightarrow>
          (let (val, s1) = JS_Eval E self code s' in quickjs_to_python E self val s1))"

definition context_get :: "engine \<Rightarrow> nat \<Rightarrow> PyObject list \<Rightarrow> state \<Rightarrow> py_return" where
  "context_get E self args s =
     (case PyArg_ParseTuple_s args s of
        (None, s') \<Rightarrow> Inr (None, s')
      | (Some name, s') \<Rightarrow>
          (let (global, s1) = JS_GetGlobalObject E self s';
               (val, s2) = JS_GetPropertyStr E self global name s1;
               s3 = JS_FreeValue self global s2
           in quickjs_to_python E self val s3))"

section \<open>Notions of the specification\<close>

text \<open>The host kinds that the call path accepts as arguments.\<close>

definition supported_kind :: "PyObject \<Rightarrow> bool" where
  "supported_kind item =
     (PyBool_Check item \<or> PyLong_Check item \<or> PyFloat_Check item \<or> item = Py_None \<or>
      PyUnicode_Check item \<or> PyObject_IsInstance_Object item)"

text \<open>An argument that the second loop converts: of a supported kind and, for a text, with a UTF-8 encoding.\<close>

fun convertible :: "PyObject \<Rightarrow> bool" where
  "convertible (PyUnicode t) = (utf8_encode t \<noteq> None)"
| "convertible (PyOther n) = False"
| "convertible _ = True"

text \<open>
  The marshaling table, host to engine: what engine value stands for a host argument,
  in an engine state \<open>j\<close>. An integer goes through a C \<^verbatim>\<open>long\<close> into the 32-bit payload;
  a text is a string cell holding its UTF-8 bytes up to the first NUL; a handle is its
  own wrapped value.
\<close>

fun marshals_to :: "js_state \<Rightarrow> PyObject \<Rightarrow> JSValue \<Rightarrow> bool" where
  "marshals_to j (Py_Bool b) v = (v = JS_MKVAL JS_TAG_BOOL (if b then 1 else 0))"
| "marshals_to j (PyLong n) v =
     (v = JS_MKVAL JS_TAG_INT (if - (2 ^ 63) \<le> n \<and> n < 2 ^ 63 then word_of_int n else - 1))"
| "marshals_to j (PyFloat d) v = (v = JSValue (Float64 d) JS_TAG_FLOAT64)"
| "marshals_to j Py_None v = (v = JS_NULL)"
| "marshals_to j (PyUnicode t) v =
     (\<exists>p bs. utf8_encode t = Some bs \<and> v = JSValue (Ptr p) JS_TAG_STRING \<and> p < next_ptr j \<and>
             str_data j p = c_str bs)"
| "marshals_to j (PyObject_Object d) v = (v = od_object d)"
| "marshals_to j (PyOther n) v = False"

text \<open>
  The primitive host values whose engine form holds all of their information: an
  integer of 32 bits, a text of code points other than 0 that has a UTF-8 encoding.
\<close>

fun exact_primitive :: "PyObject \<Rightarrow> bool" where
  "exact_primitive (Py_Bool b) = True"
| "exact_primitive (PyLong n) = (- (2 ^ 31) \<le> n \<and> n < 2 ^ 31)"
| "exact_primitive (PyFloat d) = True"
| "exact_primitive Py_None = True"
| "exact_primitive (PyUnicode t) = (utf8_encode t \<noteq> None \<and> 0 \<notin> set t)"
| "exact_primitive _ = False"

text \<open>Host to engine, then engine to host.\<close>

definition roundtrip :: "engine \<Rightarrow> nat \<Rightarrow> PyObject \<Rightarrow> state \<Rightarrow> py_return" where
  "roundtrip E ctx v s =
     (case convert_item ctx v s of
        Inl f \<Rightarrow> Inl f
      | Inr (jv, s1) \<Rightarrow> quickjs_to_python E ctx jv s1)"

definition returned :: "py_return \<Rightarrow> PyObject option" where
  "returned r = (case r of Inl f \<Rightarrow> None | Inr (v, s) \<Rightarrow> v)"

definition raised :: "py_return \<Rightarrow> (py_exc \<times> string) option" where
  "raised r = (case r of Inl f \<Rightarrow> None | Inr (v, s) \<Rightarrow> (case v of None \<Rightarrow> err_indicator s | Some x \<Rightarrow> None))"

definition final_state :: "py_return \<Rightarrow> state option" where
  "final_state r = (case r of Inl f \<Rightarrow> None | Inr (v, s) \<Rightarrow> Some s)"

text \<open>How many values of a list are references to the cell \<open>p\<close>.\<close>

definition refs_to :: "nat \<Rightarrow> JSValue list \<Rightarrow> nat" where
  "refs_to p vs = length (filter (\<lambda>v. JS_VALUE_HAS_REF_COUNT v \<and> JS_VALUE_GET_PTR v = p) vs)"

text \<open>The engine values wrapped by the handles among the arguments.\<close>

definition handle_values :: "PyObject list \<Rightarrow> JSValue list" where
  "handle_values args = map (\<lambda>item. od_object (as_ObjectData item)) (filter PyObject_IsInstance_Object args)"

text \<open>The engine value that a returned host value wraps, when it is a handle.\<close>

definition handles_of :: "PyObject option \<Rightarrow> JSValue list" where
  "handles_of x = (case x of Some (PyObject_Object h) \<Rightarrow> [od_object h] | _ \<Rightarrow> [])"

fun is_OpCall :: "js_op \<Rightarrow> bool" where
  "is_OpCall (OpCall _ _ _ _ _) = True"
| "is_OpCall _ = False"

text \<open>The engine operations recorded between the state \<open>s\<close> and a later state \<open>s'\<close>.\<close>

definition new_ops :: "state \<Rightarrow> state \<Rightarrow> js_op list" where
  "new_ops s s' = drop (length (trace s)) (trace s')"

text \<open>
  The references that the module receives and gives up. It receives one with each
  engine value that an operation returns to it (a new string, a duplicate, the result
  of a call, of an evaluation, of a property read, of a string conversion, the fetched
  exception), and it gives one up with each value it frees. \<open>held p ops\<close> is the balance
  for the cell \<open>p\<close> over the recorded operations \<open>ops\<close>.
\<close>

fun acquired_by :: "js_op \<Rightarrow> JSValue list" where
  "acquired_by (OpNewString c bs v) = [v]"
| "acquired_by (OpDupValue c v) = [v]"
| "acquired_by (OpCall c f t argv r) = [r]"
| "acquired_by (OpEval c code r) = [r]"
| "acquired_by (OpGetGlobalObject c r) = [r]"
| "acquired_by (OpGetPropertyStr c obj prop r) = [r]"
| "acquired_by (OpGetException c r) = [r]"
| "acquired_by (OpToString c v r) = [r]"
| "acquired_by _ = []"

fun released_by :: "js_op \<Rightarrow> JSValue list" where
  "released_by (OpFreeValue c v) = [v]"
| "released_by _ = []"

definition held_op :: "nat \<Rightarrow> js_op \<Rightarrow> int" where
  "held_op p x = int (refs_to p (acquired_by x)) - int (refs_to p (released_by x))"

definition held :: "nat \<Rightarrow> js_op list \<Rightarrow> int" where
  "held p ops = sum_list (map (held_op p) ops)"

text \<open>A context has been torn down once its \<^verbatim>\<open>JS_FreeContext\<close> is on record.\<close>

definition destroyed :: "nat \<Rightarrow> state \<Rightarrow> bool" where
  "destroyed c s = (OpFreeContext c \<in> set (trace s))"

text \<open>
  The operations of the host-facing surface that run the engine: evaluating a script
  and reading a global (each on the context \<open>c\<close>, with its argument tuple), calling a
  handle, and the JSON form of a handle.
\<close>

datatype request =
    Eval "PyObject list"
  | Get "PyObject list"
  | Call ObjectData "PyObject list"
  | Json ObjectData

definition run :: "engine \<Rightarrow> nat \<Rightarrow> request \<Rightarrow> state \<Rightarrow> py_return" where
  "run E c r s =
     (case r of
        Eval args \<Rightarrow> context_eval E c args s
      | Get args \<Rightarrow> context_get E c args s
      | Call self args \<Rightarrow> object_call E self args s
      | Json self \<Rightarrow> object_json E self s)"

text \<open>
  A host program that runs requests one after the other, each on a context of its own
  choice, and collects what they return. A fault ends the program.
\<close>

fun run_requests :: "engine \<Rightarrow> (nat \<times> request) list \<Rightarrow> state \<Rightarrow> fault + (PyObject option list \<times> state)" where
  "run_requests E [] s = Inr ([], s)"
| "run_requests E ((c, r) # rs) s =
     (case run E c r s of
        Inl f \<Rightarrow> Inl f
      | Inr (x, s1) \<Rightarrow>
          (case run_requests E rs s1 of
             Inl f \<Rightarrow> Inl f
           | Inr (xs, s2) \<Rightarrow> Inr (x # xs, s2)))"

text \<open>The pending exception of a context, and the engine state with the slot cleared.\<close>

definition pending :: "nat \<Rightarrow> js_state \<Rightarrow> JSValue" where
  "pending c j = (case current_exception j c of None \<Rightarrow> JS_NULL | Some e \<Rightarrow> e)"

definition drained :: "nat \<Rightarrow> js_state \<Rightarrow> js_state" where
  "drained c j = j\<lparr>current_exception := (current_exception j)(c := None)\<rparr>"

text \<open>
  What the host does to the references of a context after the module has handed out
  handles: it destroys a handle, or it drops a reference of its own to the context.
\<close>

datatype host_event = Destroy_handle ObjectData | Release_context nat

fun run_event :: "host_event \<Rightarrow> state \<Rightarrow> state" where
  "run_event (Destroy_handle h) s = object_dealloc h s"
| "run_event (Release_context c) s = Py_DECREF c s"

fun run_events :: "host_event list \<Rightarrow> state \<Rightarrow> state" where
  "run_events [] s = s"
| "run_events (e # es) s = run_events es (run_event e s)"

fun releases :: "nat \<Rightarrow> host_event \<Rightarrow> bool" where
  "releases c (Destroy_handle h) = (od_context h = Some c)"
| "releases c (Release_context c') = (c' = c)"

section \<open>A sample engine and sample states\<close>

text \<open>
  An engine for concrete runs: a call returns its first argument (a new reference to
  it), an evaluation throws the object in cell 1, the global object is cell 0, it has no
  properties, and the string form of any value is the text \<open>Error\<close> in a fresh cell.
\<close>

definition new_reference :: "JSValue \<Rightarrow> js_state \<Rightarrow> js_state" where
  "new_reference v j =
     (if JS_VALUE_HAS_REF_COUNT v
      then j\<lparr>ref_count := (ref_count j)(JS_VALUE_GET_PTR v := ref_count j (JS_VALUE_GET_PTR v) + 1)\<rparr>
      else j)"

definition sample_engine :: engine where
  "sample_engine =
     \<lparr>JS_Call_impl = (\<lambda>ctx f this argv j.
         case argv of [] \<Rightarrow> (JS_UNDEFINED, j) | a # _ \<Rightarrow> (a, new_reference a j)),
      JS_Eval_impl = (\<lambda>ctx code j.
         (JS_EXCEPTION,
          new_reference (JSValue (Ptr 1) JS_TAG_OBJECT)
            (j\<lparr>current_exception := (current_exception j)(ctx := Some (JSValue (Ptr 1) JS_TAG_OBJECT))\<rparr>))),
      JS_GetGlobalObject_impl = (\<lambda>ctx j.
         (JSValue (Ptr 0) JS_TAG_OBJECT, new_reference (JSValue (Ptr 0) JS_TAG_OBJECT) j)),
      JS_GetPropertyStr_impl = (\<lambda>ctx obj prop j. (JS_UNDEFINED, j)),
      JS_ToString_impl = (\<lambda>ctx v j.
         (JSValue (Ptr (next_ptr j)) JS_TAG_STRING,
          j\<lparr>ref_count := (ref_count j)(next_ptr j := 1),
            str_data := (str_data j)(next_ptr j := ''Error''),
            next_ptr := Suc (next_ptr j)\<rparr>))\<rparr>"

text \<open>
  The engine at the script \<^verbatim>\<open>throw Symbol()\<close>. The evaluation throws a fresh symbol (a
  reference-counted cell with the tag \<open>- 8\<close> of the header, \<^verbatim>\<open>JS_TAG_SYMBOL\<close>). The string
  conversion of a symbol throws in its turn: it returns the exception marker and leaves
  an error object pending.
\<close>

definition throwing_engine :: engine where
  "throwing_engine =
     sample_engine
       \<lparr>JS_Eval_impl := (\<lambda>ctx code j.
          (JS_EXCEPTION,
           j\<lparr>ref_count := (ref_count j)(next_ptr j := 1),
             next_ptr := Suc (next_ptr j),
             current_exception :=
               (current_exception j)(ctx := Some (JSValue (Ptr (next_ptr j)) (JS_TAG_OTHER (- 8))))\<rparr>)),
        JS_ToString_impl := (\<lambda>ctx v j.
          (JS_EXCEPTION,
           j\<lparr>ref_count := (ref_count j)(next_ptr j := 1),
             next_ptr := Suc (next_ptr j),
             current_exception :=
               (current_exception j)(ctx := Some (JSValue (Ptr (next_ptr j)) JS_TAG_OBJECT))\<rparr>))\<rparr>"

text \<open>
  A state with one context (address 0, held once by the host), the global object in
  cell 0 and an object in cell 1, and a handle on each.
\<close>

definition sample_js :: js_state where
  "sample_js =
     \<lparr>ref_count = (\<lambda>p. if p < 2 then 1 else 0), str_data = (\<lambda>p. []), next_ptr = 2,
      current_exception = (\<lambda>c. None)\<rparr>"

definition sample_state :: state where
  "sample_state =
     \<lparr>js = sample_js, ob_refcnt = (\<lambda>c. if c = 0 then 1 else 0), err_indicator = None, trace = []\<rparr>"

definition sample_handle :: ObjectData where
  "sample_handle = \<lparr>od_context = Some 0, od_object = JSValue (Ptr 1) JS_TAG_OBJECT\<rparr>"

section \<open>Basic facts about the operations\<close>

lemma log_op_fields [simp]:
  "trace (log_op e s) = trace s @ [e]"
  "js (log_op e s) = js s"
  "ob_refcnt (log_op e s) = ob_refcnt s"
  "err_indicator (log_op e s) = err_indicator s"
  by (simp_all add: log_op_def)

lemma PyErr_Format_fields [simp]:
  "trace (PyErr_Format x m s) = trace s"
  "js (PyErr_Format x m s) = js s"
  "ob_refcnt (PyErr_Format x m s) = ob_refcnt s"
  "err_indicator (PyErr_Format x m s) = Some (x, m)"
  by (simp_all add: PyErr_Format_def)

lemma JS_FreeValue_fields [simp]:
  "trace (JS_FreeValue c v s) = trace s @ [OpFreeValue c v]"
  "ob_refcnt (JS_FreeValue c v s) = ob_refcnt s"
  "err_indicator (JS_FreeValue c v s) = err_indicator s"
  "str_data (js (JS_FreeValue c v s)) = str_data (js s)"
  "next_ptr (js (JS_FreeValue c v s)) = next_ptr (js s)"
  "current_exception (js (JS_FreeValue c v s)) = current_exception (js s)"
  by (simp_all add: JS_FreeValue_def)

lemma JS_FreeValue_ref_count:
  "ref_count (js (JS_FreeValue c v s)) p =
     ref_count (js s) p - (if JS_VALUE_HAS_REF_COUNT v \<and> JS_VALUE_GET_PTR v = p then 1 else 0)"
  by (simp add: JS_FreeValue_def)

lemma JS_DupValue_fields [simp]:
  "fst (JS_DupValue c v s) = v"
  "trace (snd (JS_DupValue c v s)) = trace s @ [OpDupValue c v]"
  "ob_refcnt (snd (JS_DupValue c v s)) = ob_refcnt s"
  "err_indicator (snd (JS_DupValue c v s)) = err_indicator s"
  "str_data (js (snd (JS_DupValue c v s))) = str_data (js s)"
  "next_ptr (js (snd (JS_DupValue c v s))) = next_ptr (js s)"
  "current_exception (js (snd (JS_DupValue c v s))) = current_exception (js s)"
  by (simp_all add: JS_DupValue_def)

lemma JS_DupValue_ref_count:
  "ref_count (js (snd (JS_DupValue c v s))) p =
     ref_count (js s) p + (if JS_VALUE_HAS_REF_COUNT v \<and> JS_VALUE_GET_PTR v = p then 1 else 0)"
  by (simp add: JS_DupValue_def)

lemma show_nat_0: "show_nat 0 = ''0''"
  by (simp add: show_nat.simps digit_char_def)





section \<open>UTF-8: decoding what was encoded\<close>

lemma cont_byte: "k < 64 \<Longrightarrow> continuation (char_of (128 + k)) \<and> payload (char_of (128 + k)) = k"
  by (simp add: continuation_def payload_def)

lemma three_bytes: "((cp::nat) div 4096 * 64 + cp div 64 mod 64) * 64 + cp mod 64 = cp"
proof -
  have "cp div 4096 = cp div 64 div 64" by (simp add: div_mult2_eq)
  then have "cp div 4096 * 64 + cp div 64 mod 64 = cp div 64" by simp
  then show ?thesis by simp
qed

lemma four_bytes: "(((cp::nat) div 262144 * 64 + cp div 4096 mod 64) * 64 + cp div 64 mod 64) * 64 + cp mod 64 = cp"
proof -
  have a: "cp div 262144 = cp div 4096 div 64" by (simp add: div_mult2_eq)
  have b: "cp div 4096 = cp div 64 div 64" by (simp add: div_mult2_eq)
  from a have "cp div 262144 * 64 + cp div 4096 mod 64 = cp div 4096" by simp
  moreover from b have "cp div 4096 * 64 + cp div 64 mod 64 = cp div 64" by simp
  ultimately show ?thesis by simp
qed

lemma scan_lead:
  "n < 128 \<Longrightarrow> utf8_scan 0 0 0 (char_of n # bs) = map_option ((#) n) (utf8_scan 0 0 0 bs)"
  "k < 32 \<Longrightarrow> utf8_scan 0 0 0 (char_of (192 + k) # bs) = utf8_scan 1 k 128 bs"
  "k < 16 \<Longrightarrow> utf8_scan 0 0 0 (char_of (224 + k) # bs) = utf8_scan 2 k 2048 bs"
  "k < 8 \<Longrightarrow> utf8_scan 0 0 0 (char_of (240 + k) # bs) = utf8_scan 3 k 65536 bs"
  by simp_all

lemma scan_cont:
  "k < 64 \<Longrightarrow> utf8_scan 3 acc lo (char_of (128 + k) # bs) = utf8_scan 2 (acc * 64 + k) lo bs"
  "k < 64 \<Longrightarrow> utf8_scan 2 acc lo (char_of (128 + k) # bs) = utf8_scan 1 (acc * 64 + k) lo bs"
  "k < 64 \<Longrightarrow> lo \<le> acc * 64 + k \<Longrightarrow> \<not> surrogate (acc * 64 + k) \<Longrightarrow> acc * 64 + k < 1114112 \<Longrightarrow>
   utf8_scan 1 acc lo (char_of (128 + k) # bs) = map_option ((#) (acc * 64 + k)) (utf8_scan 0 0 0 bs)"
  by (simp_all add: cont_byte)

lemma scan_char:
  assumes "utf8_encode_char cp = Some bs"
  shows "utf8_scan 0 0 0 (bs @ rest) = map_option ((#) cp) (utf8_scan 0 0 0 rest)"
proof -
  consider "cp < 128" | "128 \<le> cp" "cp < 2048" | "2048 \<le> cp" "cp < 65536" "\<not> surrogate cp"
    | "65536 \<le> cp" "cp < 1114112"
    using assms by (auto simp: utf8_encode_char_def surrogate_def split: if_splits)
  then show ?thesis
  proof cases
    case 1
    with assms have "bs = [char_of cp]" by (simp add: utf8_encode_char_def)
    with 1 show ?thesis by (simp only: append_Cons append_Nil scan_lead(1))
  next
    case 2
    then have d: "cp div 64 < 32" "cp mod 64 < 64" by (simp_all add: less_mult_imp_div_less)
    have e: "cp div 64 * 64 + cp mod 64 = cp" by simp
    from 2 have ok: "128 \<le> cp div 64 * 64 + cp mod 64" "\<not> surrogate (cp div 64 * 64 + cp mod 64)"
      "cp div 64 * 64 + cp mod 64 < 1114112"
      unfolding e by (simp_all add: surrogate_def)
    from 2 assms have bs: "bs = [char_of (192 + cp div 64), char_of (128 + cp mod 64)]"
      by (simp add: utf8_encode_char_def)
    show ?thesis
      unfolding bs append_Cons append_Nil scan_lead(2) [OF d(1)] scan_cont(3) [OF d(2) ok] e ..
  next
    case 3
    then have d: "cp div 4096 < 16" "cp div 64 mod 64 < 64" "cp mod 64 < 64"
      by (simp_all add: less_mult_imp_div_less)
    have e: "(cp div 4096 * 64 + cp div 64 mod 64) * 64 + cp mod 64 = cp"
      by (rule three_bytes)
    from 3 have ok: "2048 \<le> (cp div 4096 * 64 + cp div 64 mod 64) * 64 + cp mod 64"
      "\<not> surrogate ((cp div 4096 * 64 + cp div 64 mod 64) * 64 + cp mod 64)"
      "(cp div 4096 * 64 + cp div 64 mod 64) * 64 + cp mod 64 < 1114112"
      unfolding e by simp_all
    from 3 assms have bs: "bs = [char_of (224 + cp div 4096), char_of (128 + cp div 64 mod 64),
        char_of (128 + cp mod 64)]"
      by (simp add: utf8_encode_char_def)
    show ?thesis
      unfolding bs append_Cons append_Nil scan_lead(3) [OF d(1)] scan_cont(2) [OF d(2)]
        scan_cont(3) [OF d(3) ok] e ..
  next
    case 4
    then have d: "cp div 262144 < 8" "cp div 4096 mod 64 < 64" "cp div 64 mod 64 < 64" "cp mod 64 < 64"
      by (simp_all add: less_mult_imp_div_less)
    have e: "((cp div 262144 * 64 + cp div 4096 mod 64) * 64 + cp div 64 mod 64) * 64 + cp mod 64 = cp"
      by (rule four_bytes)
    from 4 have ok: "65536 \<le> ((cp div 262144 * 64 + cp div 4096 mod 64) * 64 + cp div 64 mod 64) * 64 + cp mod 64"
      "\<not> surrogate (((cp div 262144 * 64 + cp div 4096 mod 64) * 64 + cp div 64 mod 64) * 64 + cp mod 64)"
      "((cp div 262144 * 64 + cp div 4096 mod 64) * 64 + cp div 64 mod 64) * 64 + cp mod 64 < 1114112"
      unfolding e by (simp_all add: surrogate_def)
    from 4 assms have bs: "bs = [char_of (240 + cp div 262144), char_of (128 + cp div 4096 mod 64),
        char_of (128 + cp div 64 mod 64), char_of (128 + cp mod 64)]"
      by (simp add: utf8_encode_char_def surrogate_def)
    show ?thesis
      unfolding bs append_Cons append_Nil scan_lead(4) [OF d(1)] scan_cont(1) [OF d(2)]
        scan_cont(2) [OF d(3)] scan_cont(3) [OF d(4) ok] e ..
  qed
qed

lemma utf8_decode_encode: "utf8_encode cps = Some bs \<Longrightarrow> utf8_decode bs = Some cps"
  unfolding utf8_decode_def
proof (induction cps arbitrary: bs)
  case Nil
  then show ?case by simp
next
  case (Cons cp cps)
  then obtain b1 b2 where b: "utf8_encode_char cp = Some b1" "utf8_encode cps = Some b2" "bs = b1 @ b2"
    by (auto split: option.splits)
  from scan_char [OF b(1), of b2] Cons.IH [OF b(2)] b(3) show ?case by simp
qed

lemma char_of_not_NUL: "0 < (n::nat) \<Longrightarrow> n < 256 \<Longrightarrow> char_of n \<noteq> CHR 0x00"
proof
  assume n: "0 < n" "n < 256" and "char_of n = CHR 0x00"
  then have "(of_char (char_of n) :: nat) = of_char (CHR 0x00)" by simp
  with n show False by simp
qed

lemma utf8_encode_char_no_NUL:
  assumes "utf8_encode_char cp = Some bs" and "cp \<noteq> 0"
  shows "CHR 0x00 \<notin> set bs"
proof -
  have c: "char_of (128 + k) \<noteq> CHR 0x00" if "k < 64" for k :: nat
    using that by (intro char_of_not_NUL) simp_all
  consider "cp < 128" | "128 \<le> cp" "cp < 2048" | "2048 \<le> cp" "cp < 65536" "\<not> surrogate cp"
    | "65536 \<le> cp" "cp < 1114112"
    using assms by (auto simp: utf8_encode_char_def surrogate_def split: if_splits)
  then show ?thesis
  proof cases
    case 1
    with assms have "bs = [char_of cp]" by (simp add: utf8_encode_char_def)
    with 1 assms(2) char_of_not_NUL [of cp] show ?thesis by simp
  next
    case 2
    then have d: "cp div 64 < 32" "cp mod 64 < 64" by (simp_all add: less_mult_imp_div_less)
    from 2 assms have bs: "bs = [char_of (192 + cp div 64), char_of (128 + cp mod 64)]"
      by (simp add: utf8_encode_char_def)
    from d have "char_of (192 + cp div 64) \<noteq> CHR 0x00" by (intro char_of_not_NUL) simp_all
    with c [OF d(2)] show ?thesis unfolding bs by simp
  next
    case 3
    then have d: "cp div 4096 < 16" "cp div 64 mod 64 < 64" "cp mod 64 < 64"
      by (simp_all add: less_mult_imp_div_less)
    from 3 assms have bs: "bs = [char_of (224 + cp div 4096), char_of (128 + cp div 64 mod 64),
        char_of (128 + cp mod 64)]"
      by (simp add: utf8_encode_char_def)
    from d have "char_of (224 + cp div 4096) \<noteq> CHR 0x00" by (intro char_of_not_NUL) simp_all
    with c [OF d(2)] c [OF d(3)] show ?thesis unfolding bs by simp
  next
    case 4
    then have d: "cp div 262144 < 8" "cp div 4096 mod 64 < 64" "cp div 64 mod 64 < 64" "cp mod 64 < 64"
      by (simp_all add: less_mult_imp_div_less)
    from 4 assms have bs: "bs = [char_of (240 + cp div 262144), char_of (128 + cp div 4096 mod 64),
        char_of (128 + cp div 64 mod 64), char_of (128 + cp mod 64)]"
      by (simp add: utf8_encode_char_def surrogate_def)
    from d have "char_of (240 + cp div 262144) \<noteq> CHR 0x00" by (intro char_of_not_NUL) simp_all
    with c [OF d(2)] c [OF d(3)] c [OF d(4)] show ?thesis unfolding bs by simp
  qed
qed

lemma utf8_encode_no_NUL:
  "utf8_encode t = Some bs \<Longrightarrow> 0 \<notin> set t \<Longrightarrow> CHR 0x00 \<notin> set bs"
proof (induction t arbitrary: bs)
  case Nil
  then show ?case by simp
next
  case (Cons cp cps)
  then obtain b1 b2 where b: "utf8_encode_char cp = Some b1" "utf8_encode cps = Some b2" "bs = b1 @ b2"
    by (auto split: option.splits)
  from Cons.prems have "cp \<noteq> 0" "0 \<notin> set cps" by auto
  with utf8_encode_char_no_NUL [OF b(1)] Cons.IH [OF b(2)] b(3) show ?case by simp
qed

lemma utf8_encode_ascii:
  "list_all (\<lambda>b. (of_char b :: nat) < 128) bs \<Longrightarrow> utf8_encode (ascii bs) = Some bs"
  by (induction bs) (simp_all add: ascii_def utf8_encode_char_def)

section \<open>The validation pass\<close>

text \<open>The first loop lets an argument list through exactly when every item is of a supported kind.\<close>

lemma validate_args_None:
  "validate_args i args s = None \<longleftrightarrow> list_all supported_kind args"
  by (induction args arbitrary: i) (auto simp: supported_kind_def)

lemma validate_args_rejects:
  "\<not> list_all supported_kind args \<Longrightarrow> \<exists>m. validate_args k args s = Some (PyErr_Format ValueError m s)"
  by (induction args arbitrary: k) (auto simp: supported_kind_def)


text \<open>The first loop goes past a boolean.\<close>

lemma validate_args_skip:
  "i < length args \<Longrightarrow> args ! i = Py_Bool b \<Longrightarrow> list_all supported_kind (take i args) \<Longrightarrow>
   validate_args k args s = validate_args (k + Suc i) (drop (Suc i) args) s"
proof (induction args arbitrary: i k)
  case Nil
  then show ?case by simp
next
  case (Cons a args)
  show ?case
  proof (cases i)
    case 0
    with Cons.prems show ?thesis by simp
  next
    case (Suc n)
    with Cons.prems have "n < length args" "args ! n = Py_Bool b" "list_all supported_kind (take n args)"
      and a: "supported_kind a"
      by simp_all
    from Cons.IH [OF this(1-3), of "Suc k"] a Suc show ?thesis
      by (auto simp: supported_kind_def)
  qed
qed







text \<open>
  Claim C6. Calling a handle that has no attached context returns \<^verbatim>\<open>None\<close> and leaves
  the whole state as it was: no engine operation is recorded, and the engine state, the
  reference counts and the error indicator are untouched.
\<close>

theorem inert_handle_call_returns_None:
  "od_context self = None \<Longrightarrow> object_call E self args s = Inr (Some Py_None, s)"
  by (simp add: object_call_def)

theorem inert_handle_call_returns_None_witness:
  "od_context object_new = None \<and>
   object_call sample_engine object_new [PyLong 1, PyUnicode [97]] sample_state =
     Inr (Some Py_None, sample_state)"
  using inert_handle_call_returns_None
    [of object_new sample_engine "[PyLong 1, PyUnicode [97]]" sample_state]
  by (simp add: object_new_def)

section \<open>The JSON method\<close>

text \<open>
  Claim C10. The constructor of the Object type yields a handle with no attached
  context. For such a handle \<^verbatim>\<open>object_json\<close> dereferences the \<^verbatim>\<open>NULL\<close> context pointer: no
  value is returned and no host error is raised. \<^verbatim>\<open>object_call\<close> on the same handle is
  guarded and returns \<^verbatim>\<open>None\<close>.
\<close>

theorem json_of_inert_handle_dereferences_NULL:
  "od_context object_new = None \<and>
   (od_context self = None \<longrightarrow>
      object_json E self s = Inl NULL_dereference \<and>
      object_call E self args s = Inr (Some Py_None, s))"
  by (simp add: object_new_def object_json_def object_call_def)

theorem json_of_inert_handle_dereferences_NULL_witness:
  "od_context object_new = None \<and>
   object_json sample_engine object_new sample_state = Inl NULL_dereference \<and>
   object_call sample_engine object_new [] sample_state = Inr (Some Py_None, sample_state)"
  using json_of_inert_handle_dereferences_NULL [of object_new sample_engine sample_state "[]"]
  by simp

section \<open>The conversion pass\<close>

lemma refs_to_simps:
  "refs_to p [] = 0"
  "refs_to p (v # vs) = (if JS_VALUE_HAS_REF_COUNT v \<and> JS_VALUE_GET_PTR v = p then 1 else 0) + refs_to p vs"
  "refs_to p (xs @ ys) = refs_to p xs + refs_to p ys"
  by (simp_all add: refs_to_def)

lemma handle_values_simps:
  "handle_values [] = []"
  "handle_values (a # args) =
     (if PyObject_IsInstance_Object a then od_object (as_ObjectData a) # handle_values args
      else handle_values args)"
  by (simp_all add: handle_values_def)

lemma handle_values_Cons: "handle_values (a # args) = handle_values [a] @ handle_values args"
  by (simp add: handle_values_def)

lemma held_append: "held p (xs @ ys) = held p xs + held p ys"
  by (simp add: held_def)

lemma held_list: "held p [] = 0" "held p (x # xs) = held_op p x + held p xs"
  by (simp_all add: held_def)

lemma held_op_simps:
  "held_op p (OpNewString c bs v) = int (refs_to p [v])"
  "held_op p (OpDupValue c v) = int (refs_to p [v])"
  "held_op p (OpFreeValue c v) = - int (refs_to p [v])"
  "held_op p (OpCall c f t argv r) = int (refs_to p [r])"
  "held_op p (OpEval c code r) = int (refs_to p [r])"
  "held_op p (OpGetGlobalObject c r) = int (refs_to p [r])"
  "held_op p (OpGetPropertyStr c obj prop r) = int (refs_to p [r])"
  "held_op p (OpGetException c r) = int (refs_to p [r])"
  "held_op p (OpToString c v r) = int (refs_to p [r])"
  "held_op p (OpToCString c v) = 0"
  "held_op p (OpFreeCString c) = 0"
  "held_op p (OpFreeContext c) = 0"
  "held_op p (OpFreeRuntime c) = 0"
  by (simp_all add: held_op_def refs_to_def)

lemmas held_simps = held_list held_op_simps

lemma new_ops_append: "trace s' = trace s @ ops \<Longrightarrow> new_ops s s' = ops"
  by (simp add: new_ops_def)

lemma no_ref_values:
  "refs_to p [JS_MKVAL JS_TAG_BOOL w] = 0"
  "refs_to p [JS_MKVAL JS_TAG_INT w] = 0"
  "refs_to p [JS_NewFloat64 c d] = 0"
  "refs_to p [JS_NULL] = 0"
  "refs_to p [JS_UNDEFINED] = 0"
  "refs_to p [JS_EXCEPTION] = 0"
  by (simp_all add: refs_to_simps JS_MKVAL_def JS_NewFloat64_def JS_NULL_def JS_UNDEFINED_def
      JS_EXCEPTION_def)

lemma JS_NewString_fields:
  "fst (JS_NewString c str s) = JSValue (Ptr (next_ptr (js s))) JS_TAG_STRING"
  "trace (snd (JS_NewString c str s)) =
     trace s @ [OpNewString c (c_str str) (JSValue (Ptr (next_ptr (js s))) JS_TAG_STRING)]"
  "ob_refcnt (snd (JS_NewString c str s)) = ob_refcnt s"
  "err_indicator (snd (JS_NewString c str s)) = err_indicator s"
  "next_ptr (js (snd (JS_NewString c str s))) = Suc (next_ptr (js s))"
  "str_data (js (snd (JS_NewString c str s))) = (str_data (js s))(next_ptr (js s) := c_str str)"
  "ref_count (js (snd (JS_NewString c str s))) = (ref_count (js s))(next_ptr (js s) := 1)"
  "current_exception (js (snd (JS_NewString c str s))) = current_exception (js s)"
  by (simp_all add: JS_NewString_def Let_def)

lemma PyLong_AsLong_fields:
  "trace (snd (PyLong_AsLong item s)) = trace s"
  "js (snd (PyLong_AsLong item s)) = js s"
  "ob_refcnt (snd (PyLong_AsLong item s)) = ob_refcnt s"
  by (simp_all add: PyLong_AsLong_def split: PyObject.splits)

lemma PyUnicode_AsUTF8_Some:
  "PyUnicode_AsUTF8 item s = (Some bs, s1) \<Longrightarrow> s1 = s \<and> (\<exists>t. item = PyUnicode t \<and> utf8_encode t = Some bs)"
  by (auto simp: PyUnicode_AsUTF8_def split: PyObject.splits option.splits)

text \<open>What one step of the second loop yields, by the kind of the item.\<close>

lemma convert_item_cases:
  assumes "convert_item c item s = Inr (v, s1)"
  shows "(\<exists>b. item = Py_Bool b \<and> v = JS_MKVAL JS_TAG_BOOL (if b then 1 else 0) \<and> s1 = s) \<or>
         (\<exists>n. item = PyLong n \<and> v = JS_MKVAL JS_TAG_INT (ucast (fst (PyLong_AsLong item s))) \<and>
              s1 = snd (PyLong_AsLong item s)) \<or>
         (\<exists>d. item = PyFloat d \<and> v = JSValue (Float64 d) JS_TAG_FLOAT64 \<and> s1 = s) \<or>
         (item = Py_None \<and> v = JS_NULL \<and> s1 = s) \<or>
         (\<exists>t bs. item = PyUnicode t \<and> utf8_encode t = Some bs \<and>
                 v = fst (JS_NewString c bs s) \<and> s1 = snd (JS_NewString c bs s)) \<or>
         (\<exists>h. item = PyObject_Object h \<and> v = od_object h \<and> s1 = snd (JS_DupValue c (od_object h) s)) \<or>
         (\<exists>n. item = PyOther n \<and> v = JS_UNDEFINED \<and> s1 = s)"
proof (cases item)
  case (PyUnicode t)
  with assms obtain bs s' where a: "PyUnicode_AsUTF8 item s = (Some bs, s')"
    and r: "JS_NewString c bs s' = (v, s1)"
    by (auto simp: convert_item_def split: option.splits prod.splits)
  from PyUnicode_AsUTF8_Some [OF a] PyUnicode have "s' = s" "utf8_encode t = Some bs" by auto
  with r PyUnicode show ?thesis by auto
qed (use assms in \<open>auto simp: convert_item_def split_def Let_def JS_NewFloat64_def PyFloat_AsDouble_def
      as_ObjectData_def JS_DupValue_def\<close>)

lemma convert_item_frame:
  assumes "convert_item c item s = Inr (v, s1)"
  shows "ob_refcnt s1 = ob_refcnt s" and "current_exception (js s1) = current_exception (js s)"
    and "next_ptr (js s) \<le> next_ptr (js s1)"
    and "\<forall>p<next_ptr (js s). str_data (js s1) p = str_data (js s) p"
  using convert_item_cases [OF assms]
  by (elim disjE exE conjE; simp add: PyLong_AsLong_fields JS_NewString_fields)+

lemma convert_item_trace:
  assumes "convert_item c item s = Inr (v, s1)"
  shows "\<exists>ops. trace s1 = trace s @ ops \<and> filter is_OpCall ops = [] \<and>
               (\<forall>p. held p ops = int (refs_to p [v]))"
proof -
  have nil: "trace s = trace s @ [] \<and> filter is_OpCall [] = []" by simp
  from convert_item_cases [OF assms] show ?thesis
  proof (elim disjE exE conjE)
    fix t bs
    assume "v = fst (JS_NewString c bs s)" "s1 = snd (JS_NewString c bs s)"
    then have "trace s1 = trace s @ [OpNewString c (c_str bs) v]"
      by (simp add: JS_NewString_fields)
    moreover have "filter is_OpCall [OpNewString c (c_str bs) v] = []" by simp
    moreover have "\<forall>p. held p [OpNewString c (c_str bs) v] = int (refs_to p [v])"
      by (simp add: held_simps)
    ultimately show ?thesis by blast
  next
    fix h
    assume "v = od_object h" "s1 = snd (JS_DupValue c (od_object h) s)"
    then have "trace s1 = trace s @ [OpDupValue c v]" by simp
    moreover have "filter is_OpCall [OpDupValue c v] = []" by simp
    moreover have "\<forall>p. held p [OpDupValue c v] = int (refs_to p [v])"
      by (simp add: held_simps)
    ultimately show ?thesis by blast
  next
    fix b assume "v = JS_MKVAL JS_TAG_BOOL (if b then 1 else 0)" "s1 = s"
    with nil have "trace s1 = trace s @ [] \<and> filter is_OpCall [] = [] \<and>
        (\<forall>p. held p [] = int (refs_to p [v]))"
      by (simp add: held_simps no_ref_values)
    then show ?thesis by blast
  next
    fix n assume "v = JS_MKVAL JS_TAG_INT (ucast (fst (PyLong_AsLong item s)))"
      "s1 = snd (PyLong_AsLong item s)"
    then have "trace s1 = trace s @ [] \<and> filter is_OpCall [] = [] \<and>
        (\<forall>p. held p [] = int (refs_to p [v]))"
      by (simp add: held_simps no_ref_values PyLong_AsLong_fields)
    then show ?thesis by blast
  next
    fix d assume "v = JSValue (Float64 d) JS_TAG_FLOAT64" "s1 = s"
    then have "trace s1 = trace s @ [] \<and> filter is_OpCall [] = [] \<and>
        (\<forall>p. held p [] = int (refs_to p [v]))"
      by (simp add: held_simps refs_to_simps)
    then show ?thesis by blast
  next
    assume "v = JS_NULL" "s1 = s"
    then have "trace s1 = trace s @ [] \<and> filter is_OpCall [] = [] \<and>
        (\<forall>p. held p [] = int (refs_to p [v]))"
      by (simp add: held_simps no_ref_values)
    then show ?thesis by blast
  next
    fix n assume "v = JS_UNDEFINED" "s1 = s"
    then have "trace s1 = trace s @ [] \<and> filter is_OpCall [] = [] \<and>
        (\<forall>p. held p [] = int (refs_to p [v]))"
      by (simp add: held_simps no_ref_values)
    then show ?thesis by blast
  qed
qed

text \<open>One step of the second loop, on the counter of a cell that existed before it.\<close>

lemma convert_item_old_cell:
  assumes "convert_item c item s = Inr (v, s1)" and "p < next_ptr (js s)"
  shows "ref_count (js s1) p = ref_count (js s) p + int (refs_to p (handle_values [item]))"
    and "refs_to p [v] = refs_to p (handle_values [item])"
  using convert_item_cases [OF assms(1)] assms(2)
  by (elim disjE exE conjE;
      simp add: PyLong_AsLong_fields JS_NewString_fields JS_DupValue_ref_count refs_to_simps
        handle_values_simps as_ObjectData_def JS_MKVAL_def JS_NULL_def JS_UNDEFINED_def
        JS_VALUE_GET_PTR_def)+

lemma ucast_minus_1: "(ucast (- 1 :: 64 word) :: 32 word) = - 1"
proof -
  have "(ucast (word_of_int (- 1) :: 64 word) :: 32 word) = word_of_int (- 1)"
    by (rule ucast_down_wi) (simp add: is_down)
  then show ?thesis by simp
qed

lemma convert_item_marshals:
  assumes "convert_item c item s = Inr (v, s1)" and "supported_kind item"
  shows "marshals_to (js s1) item v"
  using convert_item_cases [OF assms(1)] assms(2)
  by (elim disjE exE conjE;
      simp add: supported_kind_def PyLong_AsLong_def JS_NewString_fields ucast_down_wi is_down
        ucast_minus_1)

lemma convertible_supported: "convertible item \<Longrightarrow> supported_kind item"
  by (cases item) (simp_all add: supported_kind_def)

lemma convert_item_convertible:
  "convertible item \<Longrightarrow> \<exists>v s1. convert_item c item s = Inr (v, s1)"
  by (cases item)
     (auto simp: convert_item_def split_def Let_def PyUnicode_AsUTF8_def)

text \<open>The second loop, item by item.\<close>

lemma convert_args_Cons_Inr:
  "convert_args c (a # args) s = Inr (vs, s2) \<longleftrightarrow>
     (\<exists>v s1 vs'. convert_item c a s = Inr (v, s1) \<and> convert_args c args s1 = Inr (vs', s2) \<and>
                 vs = v # vs')"
  by (auto split: sum.splits)

lemma convert_args_frame:
  "convert_args c args s = Inr (vs, s1) \<Longrightarrow>
   length vs = length args \<and> ob_refcnt s1 = ob_refcnt s \<and>
   current_exception (js s1) = current_exception (js s) \<and>
   next_ptr (js s) \<le> next_ptr (js s1) \<and>
   (\<forall>p<next_ptr (js s). str_data (js s1) p = str_data (js s) p)"
proof (induction args arbitrary: s vs)
  case Nil
  then show ?case by simp
next
  case (Cons a args)
  from Cons.prems obtain v s0 vs' where
    i: "convert_item c a s = Inr (v, s0)" and r: "convert_args c args s0 = Inr (vs', s1)"
    and vs: "vs = v # vs'"
    unfolding convert_args_Cons_Inr by blast
  from convert_item_frame [OF i] Cons.IH [OF r] vs show ?case by auto
qed

lemma convert_args_trace:
  "convert_args c args s = Inr (vs, s1) \<Longrightarrow>
   \<exists>ops. trace s1 = trace s @ ops \<and> filter is_OpCall ops = [] \<and>
         (\<forall>p. held p ops = int (refs_to p vs))"
proof (induction args arbitrary: s vs)
  case Nil
  then have "trace s1 = trace s @ [] \<and> filter is_OpCall [] = [] \<and>
      (\<forall>p. held p [] = int (refs_to p vs))"
    by (simp add: held_simps refs_to_simps)
  then show ?case by blast
next
  case (Cons a args)
  from Cons.prems obtain v s0 vs' where
    i: "convert_item c a s = Inr (v, s0)" and r: "convert_args c args s0 = Inr (vs', s1)"
    and vs: "vs = v # vs'"
    unfolding convert_args_Cons_Inr by blast
  from convert_item_trace [OF i] obtain o1 where
    o1: "trace s0 = trace s @ o1" "filter is_OpCall o1 = []" "\<forall>p. held p o1 = int (refs_to p [v])"
    by blast
  from Cons.IH [OF r] obtain o2 where
    o2: "trace s1 = trace s0 @ o2" "filter is_OpCall o2 = []" "\<forall>p. held p o2 = int (refs_to p vs')"
    by blast
  have "trace s1 = trace s @ (o1 @ o2)" using o1(1) o2(1) by simp
  moreover have "filter is_OpCall (o1 @ o2) = []" using o1(2) o2(2) by simp
  moreover have "\<forall>p. held p (o1 @ o2) = int (refs_to p vs)"
    using o1(3) o2(3) vs by (simp add: held_append refs_to_simps)
  ultimately show ?case by blast
qed

lemma convert_args_old_cell:
  "convert_args c args s = Inr (vs, s1) \<Longrightarrow> p < next_ptr (js s) \<Longrightarrow>
   ref_count (js s1) p = ref_count (js s) p + int (refs_to p (handle_values args)) \<and>
   refs_to p vs = refs_to p (handle_values args)"
proof (induction args arbitrary: s vs)
  case Nil
  then show ?case by (simp add: refs_to_simps handle_values_simps)
next
  case (Cons a args)
  from Cons.prems(1) obtain v s0 vs' where
    i: "convert_item c a s = Inr (v, s0)" and r: "convert_args c args s0 = Inr (vs', s1)"
    and vs: "vs = v # vs'"
    unfolding convert_args_Cons_Inr by blast
  from convert_item_frame(3) [OF i] Cons.prems(2) have lt: "p < next_ptr (js s0)" by simp
  note st = convert_item_old_cell [OF i Cons.prems(2)]
  note ih = Cons.IH [OF r lt]
  have a: "ref_count (js s1) p = ref_count (js s) p + int (refs_to p (handle_values (a # args)))"
    using ih st(1) by (simp only: handle_values_Cons [of a args] refs_to_simps(3))
  have "refs_to p vs = refs_to p [v] + refs_to p vs'"
    unfolding vs by (simp add: refs_to_def)
  also have "\<dots> = refs_to p (handle_values [a]) + refs_to p (handle_values args)"
    using ih st(2) by simp
  also have "\<dots> = refs_to p (handle_values (a # args))"
    by (simp only: handle_values_Cons [of a args] refs_to_simps(3))
  finally show ?case using a by simp
qed

lemma marshals_to_later:
  assumes "marshals_to j item v" and "next_ptr j \<le> next_ptr j'"
    and "\<forall>p<next_ptr j. str_data j' p = str_data j p"
  shows "marshals_to j' item v"
  using assms by (cases item) auto

lemma convert_args_marshals:
  "convert_args c args s = Inr (vs, s1) \<Longrightarrow> list_all supported_kind args \<Longrightarrow>
   list_all2 (marshals_to (js s1)) args vs"
proof (induction args arbitrary: s vs)
  case Nil
  then show ?case by simp
next
  case (Cons a args)
  from Cons.prems(1) obtain v s0 vs' where
    i: "convert_item c a s = Inr (v, s0)" and r: "convert_args c args s0 = Inr (vs', s1)"
    and vs: "vs = v # vs'"
    unfolding convert_args_Cons_Inr by blast
  from Cons.prems(2) have sa: "supported_kind a" and sr: "list_all supported_kind args" by simp_all
  from convert_args_frame [OF r] have
    "next_ptr (js s0) \<le> next_ptr (js s1)" "\<forall>p<next_ptr (js s0). str_data (js s1) p = str_data (js s0) p"
    by blast+
  with marshals_to_later [OF convert_item_marshals [OF i sa]]
  have "marshals_to (js s1) a v" by blast
  with Cons.IH [OF r sr] vs show ?case by simp
qed

lemma convert_args_convertible:
  "list_all convertible args \<Longrightarrow> \<exists>vs s1. convert_args c args s = Inr (vs, s1)"
proof (induction args arbitrary: s)
  case Nil
  then show ?case by simp
next
  case (Cons a args)
  then have "convertible a" "list_all convertible args" by simp_all
  from convert_item_convertible [OF this(1), of c s] obtain v s0 where
    i: "convert_item c a s = Inr (v, s0)" by blast
  from Cons.IH [OF \<open>list_all convertible args\<close>, of s0] obtain vs s1 where
    "convert_args c args s0 = Inr (vs, s1)" by blast
  with i show ?case by simp
qed

lemma convert_args_bool:
  "convert_args c args s = Inr (vs, s1) \<Longrightarrow> i < length args \<Longrightarrow> args ! i = Py_Bool b \<Longrightarrow>
   vs ! i = JS_MKVAL JS_TAG_BOOL (if b then 1 else 0)"
proof (induction args arbitrary: s vs i)
  case Nil
  then show ?case by simp
next
  case (Cons a args)
  from Cons.prems(1) obtain v s0 vs' where
    it: "convert_item c a s = Inr (v, s0)" and r: "convert_args c args s0 = Inr (vs', s1)"
    and vs: "vs = v # vs'"
    unfolding convert_args_Cons_Inr by blast
  show ?case
  proof (cases i)
    case 0
    with Cons.prems(3) have "a = Py_Bool b" by simp
    with it have "v = JS_MKVAL JS_TAG_BOOL (if b then 1 else 0)"
      by (simp add: convert_item_def)
    with 0 vs show ?thesis by simp
  next
    case (Suc k)
    with Cons.prems have "k < length args" "args ! k = Py_Bool b" by simp_all
    from Cons.IH [OF r this] Suc vs show ?thesis by simp
  qed
qed

text \<open>The release loop.\<close>

lemma free_args_trace: "trace (free_args c vs s) = trace s @ map (OpFreeValue c) vs"
  by (induction vs arbitrary: s) simp_all

lemma free_args_ref_count:
  "ref_count (js (free_args c vs s)) p = ref_count (js s) p - int (refs_to p vs)"
  by (induction vs arbitrary: s) (simp_all add: JS_FreeValue_ref_count refs_to_simps)

lemma free_args_fields [simp]:
  "ob_refcnt (free_args c vs s) = ob_refcnt s"
  "err_indicator (free_args c vs s) = err_indicator s"
  "str_data (js (free_args c vs s)) = str_data (js s)"
  "next_ptr (js (free_args c vs s)) = next_ptr (js s)"
  "current_exception (js (free_args c vs s)) = current_exception (js s)"
  by (induction vs arbitrary: s) simp_all

lemma held_frees: "held p (map (OpFreeValue c) vs) = - int (refs_to p vs)"
proof (induction vs)
  case Nil
  then show ?case by (simp add: held_simps refs_to_simps)
next
  case (Cons v vs)
  then show ?case by (simp add: held_simps refs_to_simps)
qed

lemma no_call_in_frees: "filter is_OpCall (map (OpFreeValue c) vs) = []"
  by (induction vs) simp_all

section \<open>Converting the engine's result\<close>

lemma JS_GetException_eq:
  "JS_GetException c s =
     (pending c (js s), log_op (OpGetException c (pending c (js s))) (s\<lparr>js := drained c (js s)\<rparr>))"
  by (simp add: JS_GetException_def pending_def drained_def Let_def)

lemma JS_ToString_fields:
  "trace (snd (JS_ToString E c v s)) = trace s @ [OpToString c v (fst (JS_ToString E c v s))]"
  "ob_refcnt (snd (JS_ToString E c v s)) = ob_refcnt s"
  "(fst (JS_ToString E c v s), js (snd (JS_ToString E c v s))) = JS_ToString_impl E c v (js s)"
  by (simp_all add: JS_ToString_def split_def Let_def)

lemma JS_Call_fields:
  "trace (snd (JS_Call E c f this argv s)) =
     trace s @ [OpCall c f this argv (fst (JS_Call E c f this argv s))]"
  "ob_refcnt (snd (JS_Call E c f this argv s)) = ob_refcnt s"
  "(fst (JS_Call E c f this argv s), js (snd (JS_Call E c f this argv s))) =
     JS_Call_impl E c f this argv (js s)"
  by (simp_all add: JS_Call_def split_def Let_def)

lemma JS_Eval_fields:
  "trace (snd (JS_Eval E c code s)) = trace s @ [OpEval c code (fst (JS_Eval E c code s))]"
  "ob_refcnt (snd (JS_Eval E c code s)) = ob_refcnt s"
  "(fst (JS_Eval E c code s), js (snd (JS_Eval E c code s))) = JS_Eval_impl E c code (js s)"
  by (simp_all add: JS_Eval_def split_def Let_def)

lemma JS_GetGlobalObject_fields:
  "trace (snd (JS_GetGlobalObject E c s)) = trace s @ [OpGetGlobalObject c (fst (JS_GetGlobalObject E c s))]"
  "ob_refcnt (snd (JS_GetGlobalObject E c s)) = ob_refcnt s"
  by (simp_all add: JS_GetGlobalObject_def split_def Let_def)

lemma JS_GetPropertyStr_fields:
  "trace (snd (JS_GetPropertyStr E c obj prop s)) =
     trace s @ [OpGetPropertyStr c obj prop (fst (JS_GetPropertyStr E c obj prop s))]"
  "ob_refcnt (snd (JS_GetPropertyStr E c obj prop s)) = ob_refcnt s"
  by (simp_all add: JS_GetPropertyStr_def split_def Let_def)

lemma JS_ToCString_fields:
  "trace (snd (JS_ToCString c v s)) = trace s @ [OpToCString c v]"
  "ob_refcnt (snd (JS_ToCString c v s)) = ob_refcnt s"
  "js (snd (JS_ToCString c v s)) = js s"
  "fst (JS_ToCString c v s) =
     (if JS_VALUE_GET_TAG v = JS_TAG_STRING then Some (str_data (js s) (JS_VALUE_GET_PTR v)) else None)"
  by (simp_all add: JS_ToCString_def)

lemma JS_FreeCString_fields [simp]:
  "trace (JS_FreeCString c s) = trace s @ [OpFreeCString c]"
  "ob_refcnt (JS_FreeCString c s) = ob_refcnt s"
  "js (JS_FreeCString c s) = js s"
  "err_indicator (JS_FreeCString c s) = err_indicator s"
  by (simp_all add: JS_FreeCString_def)

lemma Py_BuildValue_s_fields:
  "trace (snd (Py_BuildValue_s cs s)) = trace s"
  "ob_refcnt (snd (Py_BuildValue_s cs s)) = ob_refcnt s"
  "js (snd (Py_BuildValue_s cs s)) = js s"
  "handles_of (fst (Py_BuildValue_s cs s)) = []"
  by (simp_all add: Py_BuildValue_s_def handles_of_def split: option.splits)

lemma tag_has_ref:
  "JS_VALUE_GET_TAG v = JS_TAG_OBJECT \<Longrightarrow> JS_VALUE_HAS_REF_COUNT v"
  "JS_VALUE_GET_TAG v = JS_TAG_STRING \<Longrightarrow> JS_VALUE_HAS_REF_COUNT v"
  "JS_VALUE_GET_TAG v = JS_TAG_EXCEPTION \<Longrightarrow> \<not> JS_VALUE_HAS_REF_COUNT v"
  by (cases v; simp add: JS_VALUE_GET_TAG_def)+

text \<open>
  The chain on the tag: what it records, and what it does to the references. But for
  the duplicate that a new handle keeps, it gives up every reference it receives.
\<close>

lemma to_python_by_tag_effect:
  assumes "to_python_by_tag E c val s = Inr (x, s')"
  shows "\<exists>ops. trace s' = trace s @ ops \<and> filter is_OpCall ops = [] \<and>
               (\<forall>p. held p ops = int (refs_to p (handles_of x)))"
    and "ob_refcnt s c' \<le> ob_refcnt s' c'"
proof -
  have plain: "\<exists>ops. trace s' = trace s @ ops \<and> filter is_OpCall ops = [] \<and>
               (\<forall>p. held p ops = int (refs_to p (handles_of x)))"
    if "trace s' = trace s" "handles_of x = []"
  proof -
    from that have "trace s' = trace s @ [] \<and> filter is_OpCall [] = [] \<and>
               (\<forall>p. held p [] = int (refs_to p (handles_of x)))"
      by (simp add: held_simps refs_to_simps)
    then show ?thesis by blast
  qed
  have both: "(\<exists>ops. trace s' = trace s @ ops \<and> filter is_OpCall ops = [] \<and>
               (\<forall>p. held p ops = int (refs_to p (handles_of x)))) \<and> ob_refcnt s c' \<le> ob_refcnt s' c'"
  proof (cases "JS_VALUE_GET_TAG val")
    case JS_TAG_INT
    with assms have "s' = s" "handles_of x = []"
      by (auto simp: to_python_by_tag_def handles_of_def)
    with plain show ?thesis by simp
  next
    case JS_TAG_BOOL
    with assms have "s' = s" "handles_of x = []"
      by (auto simp: to_python_by_tag_def handles_of_def)
    with plain show ?thesis by simp
  next
    case JS_TAG_NULL
    with assms have "s' = s" "handles_of x = []"
      by (auto simp: to_python_by_tag_def handles_of_def)
    with plain show ?thesis by simp
  next
    case JS_TAG_UNDEFINED
    with assms have "s' = s" "handles_of x = []"
      by (auto simp: to_python_by_tag_def handles_of_def)
    with plain show ?thesis by simp
  next
    case JS_TAG_FLOAT64
    with assms have "s' = s" "handles_of x = []"
      by (auto simp: to_python_by_tag_def handles_of_def)
    with plain show ?thesis by simp
  next
    case (JS_TAG_OTHER n)
    with assms have "trace s' = trace s" "ob_refcnt s' = ob_refcnt s" "handles_of x = []"
      by (auto simp: to_python_by_tag_def handles_of_def)
    with plain show ?thesis by simp
  next
    case JS_TAG_STRING
    let ?s1 = "snd (JS_ToCString c val s)"
    let ?b = "Py_BuildValue_s (fst (JS_ToCString c val s)) ?s1"
    from JS_TAG_STRING assms have x: "x = fst ?b" and s': "s' = JS_FreeCString c (snd ?b)"
      by (auto simp: to_python_by_tag_def split_def Let_def)
    have "trace s' = trace s @ [OpToCString c val, OpFreeCString c]"
      by (simp add: s' Py_BuildValue_s_fields JS_ToCString_fields)
    moreover have "filter is_OpCall [OpToCString c val, OpFreeCString c] = []" by simp
    moreover have "\<forall>p. held p [OpToCString c val, OpFreeCString c] = int (refs_to p (handles_of x))"
      by (simp add: x Py_BuildValue_s_fields held_simps refs_to_simps)
    moreover have "ob_refcnt s' = ob_refcnt s"
      by (simp add: s' Py_BuildValue_s_fields JS_ToCString_fields)
    ultimately show ?thesis by auto
  next
    case JS_TAG_OBJECT
    from JS_TAG_OBJECT assms have
      x: "x = Some (PyObject_Object \<lparr>od_context = Some c, od_object = val\<rparr>)"
      and s': "s' = snd (JS_DupValue c val (Py_INCREF c s))"
      by (auto simp: to_python_by_tag_def split_def Let_def object_new_def)
    have "trace s' = trace s @ [OpDupValue c val]" by (simp add: s' Py_INCREF_def)
    moreover have "filter is_OpCall [OpDupValue c val] = []" by simp
    moreover have "\<forall>p. held p [OpDupValue c val] = int (refs_to p (handles_of x))"
      by (simp add: x held_simps handles_of_def)
    moreover have "ob_refcnt s c' \<le> ob_refcnt s' c'" by (simp add: s' Py_INCREF_def)
    ultimately show ?thesis by blast
  next
    case JS_TAG_EXCEPTION
    let ?e = "pending c (js s)"
    let ?s1 = "log_op (OpGetException c ?e) (s\<lparr>js := drained c (js s)\<rparr>)"
    let ?es = "fst (JS_ToString E c ?e ?s1)"
    let ?s2 = "snd (JS_ToString E c ?e ?s1)"
    let ?s3 = "snd (JS_ToCString c ?es ?s2)"
    from JS_TAG_EXCEPTION assms obtain bs where
      x: "x = None" and
      s': "s' = JS_FreeValue c ?e (JS_FreeValue c ?es (JS_FreeCString c (PyErr_Format JSException (c_str bs) ?s3)))"
      by (auto simp: to_python_by_tag_def JS_GetException_eq split_def Let_def split: option.splits)
    let ?ops = "[OpGetException c ?e, OpToString c ?e ?es, OpToCString c ?es, OpFreeCString c,
                 OpFreeValue c ?es, OpFreeValue c ?e]"
    have "trace s' = trace s @ ?ops"
      by (simp add: s' JS_ToCString_fields JS_ToString_fields)
    moreover have "filter is_OpCall ?ops = []" by simp
    moreover have "\<forall>p. held p ?ops = int (refs_to p (handles_of x))"
      by (simp add: x held_simps refs_to_simps handles_of_def)
    moreover have "ob_refcnt s' = ob_refcnt s"
      by (simp add: s' JS_ToCString_fields JS_ToString_fields)
    ultimately show ?thesis by auto
  qed
  from both show "\<exists>ops. trace s' = trace s @ ops \<and> filter is_OpCall ops = [] \<and>
               (\<forall>p. held p ops = int (refs_to p (handles_of x)))" by blast
  from both show "ob_refcnt s c' \<le> ob_refcnt s' c'" by blast
qed

text \<open>The conversion consumes the engine value: it gives up the reference that came with it.\<close>

lemma quickjs_to_python_effect:
  assumes "quickjs_to_python E c val s = Inr (x, s')"
  shows "\<exists>ops. trace s' = trace s @ ops \<and> filter is_OpCall ops = [] \<and>
               (\<forall>p. held p ops = int (refs_to p (handles_of x)) - int (refs_to p [val]))"
    and "ob_refcnt s c' \<le> ob_refcnt s' c'"
proof -
  from assms obtain b where b: "to_python_by_tag E c val s = Inr (x, b)" and s': "s' = JS_FreeValue c val b"
    by (auto simp: quickjs_to_python_def split: sum.splits)
  from to_python_by_tag_effect(1) [OF b] obtain ops where
    o: "trace b = trace s @ ops" "filter is_OpCall ops = []"
      "\<forall>p. held p ops = int (refs_to p (handles_of x))"
    by blast
  have "trace s' = trace s @ (ops @ [OpFreeValue c val])" using o s' by simp
  moreover have "filter is_OpCall (ops @ [OpFreeValue c val]) = []" using o by simp
  moreover have "\<forall>p. held p (ops @ [OpFreeValue c val]) =
      int (refs_to p (handles_of x)) - int (refs_to p [val])"
    using o(3) by (simp add: held_append held_simps)
  ultimately show "\<exists>ops. trace s' = trace s @ ops \<and> filter is_OpCall ops = [] \<and>
               (\<forall>p. held p ops = int (refs_to p (handles_of x)) - int (refs_to p [val]))"
    by blast
  from to_python_by_tag_effect(2) [OF b, of c'] s' show "ob_refcnt s c' \<le> ob_refcnt s' c'" by simp
qed

section \<open>The operations as a whole\<close>

lemma validate_args_accepts: "list_all supported_kind args \<Longrightarrow> validate_args i args s = None"
  by (simp add: validate_args_None)

lemma object_call_validated:
  assumes "od_context self = Some c" and "list_all supported_kind args"
    and "convert_args c args s = Inr (jsargs, s1)"
    and "JS_Call E c (od_object self) JS_NULL jsargs s1 = (val, s2)"
  shows "object_call E self args s = quickjs_to_python E c val (free_args c jsargs s2)"
  using assms by (simp add: object_call_def validate_args_accepts)

text \<open>
  What a call records and what it does to the references: it holds on to none but the
  one of a handle that it returns, and it invokes the engine at most once.
\<close>

lemma object_call_effect:
  assumes "object_call E self args s = Inr (x, s')"
  shows "\<exists>ops. trace s' = trace s @ ops \<and>
           (\<forall>p. held p ops = int (refs_to p (handles_of x))) \<and>
           (filter is_OpCall ops = [] \<or>
            (\<exists>c jsargs s1 val. od_context self = Some c \<and> list_all supported_kind args \<and>
               convert_args c args s = Inr (jsargs, s1) \<and>
               filter is_OpCall ops = [OpCall c (od_object self) JS_NULL jsargs val]))"
    and "ob_refcnt s c' \<le> ob_refcnt s' c'"
proof -
  have idle: "(\<exists>ops. trace s' = trace s @ ops \<and>
           (\<forall>p. held p ops = int (refs_to p (handles_of x))) \<and>
           (filter is_OpCall ops = [] \<or>
            (\<exists>c jsargs s1 val. od_context self = Some c \<and> list_all supported_kind args \<and>
               convert_args c args s = Inr (jsargs, s1) \<and>
               filter is_OpCall ops = [OpCall c (od_object self) JS_NULL jsargs val]))) \<and>
        ob_refcnt s c' \<le> ob_refcnt s' c'"
    if "trace s' = trace s" "ob_refcnt s' = ob_refcnt s" "handles_of x = []"
  proof -
    from that have "trace s' = trace s @ [] \<and> (\<forall>p. held p [] = int (refs_to p (handles_of x))) \<and>
        filter is_OpCall [] = []"
      by (simp add: held_simps refs_to_simps)
    with that(2) show ?thesis by (metis order_refl)
  qed
  have both: "(\<exists>ops. trace s' = trace s @ ops \<and>
           (\<forall>p. held p ops = int (refs_to p (handles_of x))) \<and>
           (filter is_OpCall ops = [] \<or>
            (\<exists>c jsargs s1 val. od_context self = Some c \<and> list_all supported_kind args \<and>
               convert_args c args s = Inr (jsargs, s1) \<and>
               filter is_OpCall ops = [OpCall c (od_object self) JS_NULL jsargs val]))) \<and>
        ob_refcnt s c' \<le> ob_refcnt s' c'"
  proof (cases "od_context self")
    case None
    with assms have "s' = s" "x = Some Py_None" by (simp_all add: object_call_def)
    then show ?thesis by (intro idle) (simp_all add: handles_of_def)
  next
    case (Some c)
    show ?thesis
    proof (cases "list_all supported_kind args")
      case False
      from validate_args_rejects [OF False, of 0 s] obtain m where
        "validate_args 0 args s = Some (PyErr_Format ValueError m s)" by blast
      with Some assms have "s' = PyErr_Format ValueError m s" "x = None"
        by (simp_all add: object_call_def)
      then show ?thesis by (intro idle) (simp_all add: handles_of_def)
    next
      case True
      from Some True assms obtain jsargs s1 where
        cv: "convert_args c args s = Inr (jsargs, s1)"
        by (auto simp: object_call_def validate_args_accepts split: sum.splits)
      let ?call = "JS_Call E c (od_object self) JS_NULL jsargs s1"
      let ?val = "fst ?call"
      let ?s3 = "free_args c jsargs (snd ?call)"
      from object_call_validated [OF Some True cv, of E ?val "snd ?call"] assms
      have q: "quickjs_to_python E c ?val ?s3 = Inr (x, s')" by simp
      from convert_args_trace [OF cv] obtain o1 where
        o1: "trace s1 = trace s @ o1" "filter is_OpCall o1 = []"
          "\<forall>p. held p o1 = int (refs_to p jsargs)"
        by blast
      from quickjs_to_python_effect(1) [OF q] obtain o3 where
        o3: "trace s' = trace ?s3 @ o3" "filter is_OpCall o3 = []"
          "\<forall>p. held p o3 = int (refs_to p (handles_of x)) - int (refs_to p [?val])"
        by blast
      let ?ops = "o1 @ [OpCall c (od_object self) JS_NULL jsargs ?val] @ map (OpFreeValue c) jsargs @ o3"
      have t: "trace s' = trace s @ ?ops"
        using o1(1) o3(1) by (simp add: free_args_trace JS_Call_fields)
      have h: "\<forall>p. held p ?ops = int (refs_to p (handles_of x))"
        using o1(3) o3(3) by (simp add: held_append held_simps held_frees)
      have f: "filter is_OpCall ?ops = [OpCall c (od_object self) JS_NULL jsargs ?val]"
        using o1(2) o3(2) by (simp add: no_call_in_frees)
      have r: "ob_refcnt s c' \<le> ob_refcnt s' c'"
        using quickjs_to_python_effect(2) [OF q, of c'] convert_args_frame [OF cv]
        by (simp add: JS_Call_fields)
      from t h f r Some True cv show ?thesis by blast
    qed
  qed
  from both show "\<exists>ops. trace s' = trace s @ ops \<and>
           (\<forall>p. held p ops = int (refs_to p (handles_of x))) \<and>
           (filter is_OpCall ops = [] \<or>
            (\<exists>c jsargs s1 val. od_context self = Some c \<and> list_all supported_kind args \<and>
               convert_args c args s = Inr (jsargs, s1) \<and>
               filter is_OpCall ops = [OpCall c (od_object self) JS_NULL jsargs val]))"
    by blast
  from both show "ob_refcnt s c' \<le> ob_refcnt s' c'" by blast
qed

lemma PyArg_ParseTuple_s_fields:
  "trace (snd (PyArg_ParseTuple_s args s)) = trace s"
  "ob_refcnt (snd (PyArg_ParseTuple_s args s)) = ob_refcnt s"
  "js (snd (PyArg_ParseTuple_s args s)) = js s"
  by (auto simp: PyArg_ParseTuple_s_def split: list.splits PyObject.splits option.splits)

lemma context_eval_effect:
  assumes "context_eval E c args s = Inr (x, s')"
  shows "\<exists>ops. trace s' = trace s @ ops \<and> (\<forall>p. held p ops = int (refs_to p (handles_of x)))"
    and "ob_refcnt s c' \<le> ob_refcnt s' c'"
proof -
  let ?p = "PyArg_ParseTuple_s args s"
  have both: "(\<exists>ops. trace s' = trace s @ ops \<and> (\<forall>p. held p ops = int (refs_to p (handles_of x)))) \<and>
      ob_refcnt s c' \<le> ob_refcnt s' c'"
  proof (cases "fst ?p")
    case None
    with assms have "s' = snd ?p" "x = None"
      by (auto simp: context_eval_def split: prod.splits)
    then have "trace s' = trace s @ [] \<and> (\<forall>p. held p [] = int (refs_to p (handles_of x)))"
      "ob_refcnt s' = ob_refcnt s"
      by (simp_all add: PyArg_ParseTuple_s_fields held_simps handles_of_def refs_to_simps)
    then show ?thesis by (metis order_refl)
  next
    case (Some code)
    let ?ev = "JS_Eval E c code (snd ?p)"
    from Some assms have q: "quickjs_to_python E c (fst ?ev) (snd ?ev) = Inr (x, s')"
      by (auto simp: context_eval_def split_def Let_def split: prod.splits)
    from quickjs_to_python_effect(1) [OF q] obtain o3 where
      o3: "trace s' = trace (snd ?ev) @ o3"
        "\<forall>p. held p o3 = int (refs_to p (handles_of x)) - int (refs_to p [fst ?ev])"
      by blast
    have "trace s' = trace s @ (OpEval c code (fst ?ev) # o3)"
      using o3(1) by (simp add: JS_Eval_fields PyArg_ParseTuple_s_fields)
    moreover have "\<forall>p. held p (OpEval c code (fst ?ev) # o3) = int (refs_to p (handles_of x))"
      using o3(2) by (simp add: held_simps)
    moreover have "ob_refcnt s c' \<le> ob_refcnt s' c'"
      using quickjs_to_python_effect(2) [OF q, of c']
      by (simp add: JS_Eval_fields PyArg_ParseTuple_s_fields)
    ultimately show ?thesis by blast
  qed
  from both show "\<exists>ops. trace s' = trace s @ ops \<and> (\<forall>p. held p ops = int (refs_to p (handles_of x)))"
    by blast
  from both show "ob_refcnt s c' \<le> ob_refcnt s' c'" by blast
qed

lemma context_get_effect:
  assumes "context_get E c args s = Inr (x, s')"
  shows "\<exists>ops. trace s' = trace s @ ops \<and> (\<forall>p. held p ops = int (refs_to p (handles_of x)))"
    and "ob_refcnt s c' \<le> ob_refcnt s' c'"
proof -
  let ?p = "PyArg_ParseTuple_s args s"
  have both: "(\<exists>ops. trace s' = trace s @ ops \<and> (\<forall>p. held p ops = int (refs_to p (handles_of x)))) \<and>
      ob_refcnt s c' \<le> ob_refcnt s' c'"
  proof (cases "fst ?p")
    case None
    with assms have "s' = snd ?p" "x = None"
      by (auto simp: context_get_def split: prod.splits)
    then have "trace s' = trace s @ [] \<and> (\<forall>p. held p [] = int (refs_to p (handles_of x)))"
      "ob_refcnt s' = ob_refcnt s"
      by (simp_all add: PyArg_ParseTuple_s_fields held_simps handles_of_def refs_to_simps)
    then show ?thesis by (metis order_refl)
  next
    case (Some name)
    let ?g = "JS_GetGlobalObject E c (snd ?p)"
    let ?v = "JS_GetPropertyStr E c (fst ?g) name (snd ?g)"
    let ?s3 = "JS_FreeValue c (fst ?g) (snd ?v)"
    from Some assms have q: "quickjs_to_python E c (fst ?v) ?s3 = Inr (x, s')"
      by (auto simp: context_get_def split_def Let_def split: prod.splits)
    from quickjs_to_python_effect(1) [OF q] obtain o3 where
      o3: "trace s' = trace ?s3 @ o3"
        "\<forall>p. held p o3 = int (refs_to p (handles_of x)) - int (refs_to p [fst ?v])"
      by blast
    let ?ops = "[OpGetGlobalObject c (fst ?g), OpGetPropertyStr c (fst ?g) name (fst ?v),
                 OpFreeValue c (fst ?g)] @ o3"
    have "trace s' = trace s @ ?ops"
      using o3(1)
      by (simp add: JS_GetGlobalObject_fields JS_GetPropertyStr_fields PyArg_ParseTuple_s_fields)
    moreover have "\<forall>p. held p ?ops = int (refs_to p (handles_of x))"
      using o3(2) by (simp add: held_append held_simps)
    moreover have "ob_refcnt s c' \<le> ob_refcnt s' c'"
      using quickjs_to_python_effect(2) [OF q, of c']
      by (simp add: JS_GetGlobalObject_fields JS_GetPropertyStr_fields PyArg_ParseTuple_s_fields)
    ultimately show ?thesis by blast
  qed
  from both show "\<exists>ops. trace s' = trace s @ ops \<and> (\<forall>p. held p ops = int (refs_to p (handles_of x)))"
    by blast
  from both show "ob_refcnt s c' \<le> ob_refcnt s' c'" by blast
qed

lemma object_json_effect:
  assumes "object_json E self s = Inr (x, s')"
  shows "\<exists>ops. trace s' = trace s @ ops \<and> (\<forall>p. held p ops = int (refs_to p (handles_of x)))"
    and "ob_refcnt s c' \<le> ob_refcnt s' c'"
proof -
  from assms obtain c where c: "od_context self = Some c"
    by (cases "od_context self") (simp_all add: object_json_def)
  let ?g = "JS_GetGlobalObject E c s"
  let ?J = "JS_GetPropertyStr E c (fst ?g) ''JSON'' (snd ?g)"
  let ?f = "JS_GetPropertyStr E c (fst ?J) ''stringify'' (snd ?J)"
  let ?r = "JS_Call E c (fst ?f) (fst ?J) [od_object self] (snd ?f)"
  let ?s7 = "JS_FreeValue c (fst ?f) (JS_FreeValue c (fst ?J) (JS_FreeValue c (fst ?g) (snd ?r)))"
  from c assms have q: "quickjs_to_python E c (fst ?r) ?s7 = Inr (x, s')"
    by (simp add: object_json_def split_def Let_def)
  from quickjs_to_python_effect(1) [OF q] obtain o3 where
    o3: "trace s' = trace ?s7 @ o3"
      "\<forall>p. held p o3 = int (refs_to p (handles_of x)) - int (refs_to p [fst ?r])"
    by blast
  let ?ops = "[OpGetGlobalObject c (fst ?g), OpGetPropertyStr c (fst ?g) ''JSON'' (fst ?J),
               OpGetPropertyStr c (fst ?J) ''stringify'' (fst ?f),
               OpCall c (fst ?f) (fst ?J) [od_object self] (fst ?r),
               OpFreeValue c (fst ?g), OpFreeValue c (fst ?J), OpFreeValue c (fst ?f)] @ o3"
  have "trace s' = trace s @ ?ops"
    using o3(1) by (simp add: JS_GetGlobalObject_fields JS_GetPropertyStr_fields JS_Call_fields)
  moreover have "\<forall>p. held p ?ops = int (refs_to p (handles_of x))"
    using o3(2) by (simp add: held_append held_simps)
  ultimately show "\<exists>ops. trace s' = trace s @ ops \<and> (\<forall>p. held p ops = int (refs_to p (handles_of x)))"
    by blast
  show "ob_refcnt s c' \<le> ob_refcnt s' c'"
    using quickjs_to_python_effect(2) [OF q, of c']
    by (simp add: JS_GetGlobalObject_fields JS_GetPropertyStr_fields JS_Call_fields)
qed

lemma run_effect:
  assumes "run E c r s = Inr (x, s')"
  shows "held p (new_ops s s') = int (refs_to p (handles_of x))"
    and "ob_refcnt s c' \<le> ob_refcnt s' c'"
proof -
  have "(\<exists>ops. trace s' = trace s @ ops \<and> (\<forall>p. held p ops = int (refs_to p (handles_of x)))) \<and>
      ob_refcnt s c' \<le> ob_refcnt s' c'"
  proof (cases r)
    case (Eval args)
    with assms have e: "context_eval E c args s = Inr (x, s')" by (simp add: run_def)
    from context_eval_effect(1) [OF e] context_eval_effect(2) [OF e, of c'] show ?thesis by blast
  next
    case (Get args)
    with assms have e: "context_get E c args s = Inr (x, s')" by (simp add: run_def)
    from context_get_effect(1) [OF e] context_get_effect(2) [OF e, of c'] show ?thesis by blast
  next
    case (Call self args)
    with assms have e: "object_call E self args s = Inr (x, s')" by (simp add: run_def)
    from object_call_effect(1) [OF e] object_call_effect(2) [OF e, of c'] show ?thesis by blast
  next
    case (Json self)
    with assms have e: "object_json E self s = Inr (x, s')" by (simp add: run_def)
    from object_json_effect(1) [OF e] object_json_effect(2) [OF e, of c'] show ?thesis by blast
  qed
  then obtain ops where "trace s' = trace s @ ops" "\<forall>p. held p ops = int (refs_to p (handles_of x))"
    and r: "ob_refcnt s c' \<le> ob_refcnt s' c'" by blast
  then show "held p (new_ops s s') = int (refs_to p (handles_of x))"
    by (simp add: new_ops_append)
  from r show "ob_refcnt s c' \<le> ob_refcnt s' c'" .
qed

section \<open>The call path\<close>

text \<open>
  Claim C7. Take a call that passes the first loop, on a handle with an attached
  context; let \<open>jsargs\<close> be the converted arguments and \<open>s2\<close> the state right after the
  engine's invocation. The call continues with the release loop and then the
  conversion of the result. The release loop frees each converted value once, in
  order, and nothing else: the counter of a cell goes down by the number of converted
  values that refer to it. For a cell that existed before the call, these are the
  values of the handles among the arguments, and the conversion loop had raised the
  counter by the same number: if the invocation itself leaves the counter alone, it is
  after the release what it was before the call. (A handle with no attached context
  converts and releases nothing: its call returns at the guard.)
\<close>

theorem converted_arguments_released_once:
  assumes "od_context self = Some c" and "list_all supported_kind args"
    and "convert_args c args s = Inr (jsargs, s1)"
    and "JS_Call E c (od_object self) JS_NULL jsargs s1 = (val, s2)"
  shows "object_call E self args s = quickjs_to_python E c val (free_args c jsargs s2) \<and>
         trace (free_args c jsargs s2) = trace s2 @ map (OpFreeValue c) jsargs \<and>
         (\<forall>p. ref_count (js (free_args c jsargs s2)) p = ref_count (js s2) p - int (refs_to p jsargs)) \<and>
         (\<forall>p<next_ptr (js s).
            refs_to p jsargs = refs_to p (handle_values args) \<and>
            ref_count (js s1) p = ref_count (js s) p + int (refs_to p (handle_values args)) \<and>
            (ref_count (js s2) p = ref_count (js s1) p \<longrightarrow>
               ref_count (js (free_args c jsargs s2)) p = ref_count (js s) p))"
proof -
  have old: "\<forall>p<next_ptr (js s).
            refs_to p jsargs = refs_to p (handle_values args) \<and>
            ref_count (js s1) p = ref_count (js s) p + int (refs_to p (handle_values args))"
    using convert_args_old_cell [OF assms(3)] by simp
  have rel: "\<forall>p. ref_count (js (free_args c jsargs s2)) p = ref_count (js s2) p - int (refs_to p jsargs)"
    by (simp add: free_args_ref_count)
  from old rel have net: "\<forall>p<next_ptr (js s). ref_count (js s2) p = ref_count (js s1) p \<longrightarrow>
               ref_count (js (free_args c jsargs s2)) p = ref_count (js s) p"
    by simp
  from object_call_validated [OF assms] free_args_trace [of c jsargs s2] old rel net
  show ?thesis by blast
qed

lemma sample_text: "PyUnicode_AsUTF8 (PyUnicode [97]) s = (Some ''a'', s)"
proof -
  have "utf8_encode [97] = Some ''a''"
    using utf8_encode_ascii [of "''a''"] by (simp add: ascii_def)
  then show ?thesis by (simp add: PyUnicode_AsUTF8_def del: utf8_encode.simps)
qed

lemma sample_conversion:
  "convert_args 0 [PyUnicode [97], PyObject_Object sample_handle] sample_state =
     Inr ([JSValue (Ptr 2) JS_TAG_STRING, JSValue (Ptr 1) JS_TAG_OBJECT],
          snd (JS_DupValue 0 (JSValue (Ptr 1) JS_TAG_OBJECT)
                 (snd (JS_NewString 0 ''a'' sample_state))))"
proof -
  have n: "next_ptr (js sample_state) = 2" by (simp add: sample_state_def sample_js_def)
  have 1: "convert_item 0 (PyUnicode [97]) sample_state =
      Inr (JSValue (Ptr 2) JS_TAG_STRING, snd (JS_NewString 0 ''a'' sample_state))"
    using JS_NewString_fields(1) [of 0 "''a''" sample_state]
    by (simp add: convert_item_def sample_text n prod_eq_iff)
  have 2: "convert_item 0 (PyObject_Object sample_handle) s =
      Inr (JSValue (Ptr 1) JS_TAG_OBJECT, snd (JS_DupValue 0 (JSValue (Ptr 1) JS_TAG_OBJECT) s))" for s
    by (simp add: convert_item_def as_ObjectData_def sample_handle_def prod_eq_iff)
  show ?thesis
    by (simp add: 1 2)
qed

lemma sample_supported: "list_all supported_kind [PyUnicode [97], PyObject_Object sample_handle]"
  by (simp add: supported_kind_def)

theorem converted_arguments_released_once_witness:
  "\<exists>jsargs s1 val s2.
     convert_args 0 [PyUnicode [97], PyObject_Object sample_handle] sample_state = Inr (jsargs, s1) \<and>
     JS_Call sample_engine 0 (od_object sample_handle) JS_NULL jsargs s1 = (val, s2) \<and>
     jsargs = [JSValue (Ptr 2) JS_TAG_STRING, JSValue (Ptr 1) JS_TAG_OBJECT] \<and>
     trace (free_args 0 jsargs s2) =
       trace s2 @ [OpFreeValue 0 (JSValue (Ptr 2) JS_TAG_STRING), OpFreeValue 0 (JSValue (Ptr 1) JS_TAG_OBJECT)] \<and>
     ref_count (js s1) 1 = ref_count (js sample_state) 1 + 1 \<and>
     ref_count (js (free_args 0 jsargs s2)) 1 = ref_count (js sample_state) 1"
proof -
  let ?args = "[PyUnicode [97], PyObject_Object sample_handle]"
  let ?jsargs = "[JSValue (Ptr 2) JS_TAG_STRING, JSValue (Ptr 1) JS_TAG_OBJECT]"
  let ?s1 = "snd (JS_DupValue 0 (JSValue (Ptr 1) JS_TAG_OBJECT) (snd (JS_NewString 0 ''a'' sample_state)))"
  let ?call = "JS_Call sample_engine 0 (od_object sample_handle) JS_NULL ?jsargs ?s1"
  have h1: "od_context sample_handle = Some 0" by (simp add: sample_handle_def)
  have h4: "?call = (fst ?call, snd ?call)" by simp
  have lt: "(1::nat) < next_ptr (js sample_state)" by (simp add: sample_state_def sample_js_def)
  have hv: "refs_to 1 (handle_values ?args) = 1"
    by (simp add: handle_values_def refs_to_def as_ObjectData_def sample_handle_def JS_VALUE_GET_PTR_def)
  note th = converted_arguments_released_once [OF h1 sample_supported sample_conversion h4]
  from th have tr: "trace (free_args 0 ?jsargs (snd ?call)) = trace (snd ?call) @ map (OpFreeValue 0) ?jsargs"
    by blast
  from th lt hv have up: "ref_count (js ?s1) 1 = ref_count (js sample_state) 1 + 1"
    by (metis of_nat_1)
  have same: "ref_count (js (snd ?call)) 1 = ref_count (js ?s1) 1"
    by (simp add: JS_Call_def sample_engine_def new_reference_def JS_VALUE_GET_PTR_def split_def Let_def)
  from th lt same have net: "ref_count (js (free_args 0 ?jsargs (snd ?call))) 1 = ref_count (js sample_state) 1"
    by blast
  have tr': "trace (free_args 0 ?jsargs (snd ?call)) =
       trace (snd ?call) @ [OpFreeValue 0 (JSValue (Ptr 2) JS_TAG_STRING), OpFreeValue 0 (JSValue (Ptr 1) JS_TAG_OBJECT)]"
    using tr by (simp only: list.map)
  show ?thesis
    apply (rule exI [of _ ?jsargs], rule exI [of _ ?s1], rule exI [of _ "fst ?call"],
        rule exI [of _ "snd ?call"])
    apply (intro conjI)
         apply (rule sample_conversion)
        apply (rule h4)
       apply (rule refl)
      apply (rule tr')
     apply (rule up)
    apply (rule net)
    done
qed

text \<open>
  Claim C8, as amended. A call on a handle with an attached context whose arguments are
  all convertible (each of a supported kind, each text with a UTF-8 encoding) invokes
  the engine exactly once: on the wrapped value, with \<^verbatim>\<open>JS_NULL\<close> (the engine's null
  constant) as \<^verbatim>\<open>this\<close>, and with the converted arguments, one for each host argument,
  in order, each the engine form of its host argument. The call then continues with
  the release loop and the conversion of the engine's result.
\<close>

theorem validated_call_invokes_wrapped_value:
  assumes "od_context self = Some c" and "list_all convertible args"
  shows "\<exists>jsargs s1 val s2.
     convert_args c args s = Inr (jsargs, s1) \<and>
     list_all2 (marshals_to (js s1)) args jsargs \<and>
     JS_Call E c (od_object self) JS_NULL jsargs s1 = (val, s2) \<and>
     (val, js s2) = JS_Call_impl E c (od_object self) JS_NULL jsargs (js s1) \<and>
     object_call E self args s = quickjs_to_python E c val (free_args c jsargs s2) \<and>
     (\<forall>x s'. object_call E self args s = Inr (x, s') \<longrightarrow>
        filter is_OpCall (new_ops s s') = [OpCall c (od_object self) JS_NULL jsargs val])"
proof -
  from assms(2) have sup: "list_all supported_kind args"
    by (induction args) (simp_all add: convertible_supported)
  from convert_args_convertible [OF assms(2), of c s] obtain jsargs s1 where
    cv: "convert_args c args s = Inr (jsargs, s1)" by blast
  let ?call = "JS_Call E c (od_object self) JS_NULL jsargs s1"
  let ?val = "fst ?call"
  let ?s2 = "snd ?call"
  have c2: "?call = (?val, ?s2)" by simp
  have m: "list_all2 (marshals_to (js s1)) args jsargs"
    by (rule convert_args_marshals [OF cv sup])
  have oc: "object_call E self args s = quickjs_to_python E c ?val (free_args c jsargs ?s2)"
    by (rule object_call_validated [OF assms(1) sup cv c2])
  have tr: "\<forall>x s'. object_call E self args s = Inr (x, s') \<longrightarrow>
        filter is_OpCall (new_ops s s') = [OpCall c (od_object self) JS_NULL jsargs ?val]"
  proof (intro allI impI)
    fix x s'
    assume r: "object_call E self args s = Inr (x, s')"
    with oc have q: "quickjs_to_python E c ?val (free_args c jsargs ?s2) = Inr (x, s')" by simp
    from convert_args_trace [OF cv] obtain o1 where
      o1: "trace s1 = trace s @ o1" "filter is_OpCall o1 = []" by blast
    from quickjs_to_python_effect(1) [OF q] obtain o3 where
      o3: "trace s' = trace (free_args c jsargs ?s2) @ o3" "filter is_OpCall o3 = []" by blast
    have "trace s' = trace s @ (o1 @ [OpCall c (od_object self) JS_NULL jsargs ?val] @
        map (OpFreeValue c) jsargs @ o3)"
      using o1(1) o3(1) by (simp add: free_args_trace JS_Call_fields)
    then have "new_ops s s' = o1 @ [OpCall c (od_object self) JS_NULL jsargs ?val] @
        map (OpFreeValue c) jsargs @ o3"
      by (rule new_ops_append)
    with o1(2) o3(2) show "filter is_OpCall (new_ops s s') = [OpCall c (od_object self) JS_NULL jsargs ?val]"
      by (simp add: no_call_in_frees)
  qed
  from cv m c2 JS_Call_fields(3) [of E c "od_object self" JS_NULL jsargs s1] oc tr
  show ?thesis by blast
qed

lemma sample_convertible: "list_all convertible [PyUnicode [97], PyObject_Object sample_handle]"
  using utf8_encode_ascii [of "''a''"] by (simp add: ascii_def del: utf8_encode.simps)

theorem validated_call_invokes_wrapped_value_witness:
  "od_context sample_handle = Some 0 \<and>
   list_all convertible [PyUnicode [97], PyObject_Object sample_handle] \<and>
   (\<exists>x s'. object_call sample_engine sample_handle [PyUnicode [97], PyObject_Object sample_handle] sample_state =
        Inr (x, s') \<and>
      filter is_OpCall (trace s') =
        [OpCall 0 (JSValue (Ptr 1) JS_TAG_OBJECT) JS_NULL
           [JSValue (Ptr 2) JS_TAG_STRING, JSValue (Ptr 1) JS_TAG_OBJECT] (JSValue (Ptr 2) JS_TAG_STRING)])"
proof -
  let ?args = "[PyUnicode [97], PyObject_Object sample_handle]"
  have h1: "od_context sample_handle = Some 0" by (simp add: sample_handle_def)
  from validated_call_invokes_wrapped_value [OF h1 sample_convertible, of sample_state sample_engine]
  obtain jsargs s1 val s2 where
    c: "convert_args 0 ?args sample_state = Inr (jsargs, s1)" and
    k: "(val, js s2) = JS_Call_impl sample_engine 0 (od_object sample_handle) JS_NULL jsargs (js s1)" and
    oc: "object_call sample_engine sample_handle ?args sample_state =
           quickjs_to_python sample_engine 0 val (free_args 0 jsargs s2)" and
    tr: "\<forall>x s'. object_call sample_engine sample_handle ?args sample_state = Inr (x, s') \<longrightarrow>
        filter is_OpCall (new_ops sample_state s') =
          [OpCall 0 (od_object sample_handle) JS_NULL jsargs val]"
    by blast
  from c sample_conversion have js: "jsargs = [JSValue (Ptr 2) JS_TAG_STRING, JSValue (Ptr 1) JS_TAG_OBJECT]"
    by simp
  from k js have v: "val = JSValue (Ptr 2) JS_TAG_STRING"
    by (simp add: sample_engine_def)
  have "\<exists>x s'. quickjs_to_python sample_engine 0 val (free_args 0 jsargs s2) = Inr (x, s')"
    using v by (simp add: quickjs_to_python_def to_python_by_tag_def JS_VALUE_GET_TAG_def
        JS_ToCString_def split_def Let_def)
  with oc obtain x s' where r: "object_call sample_engine sample_handle ?args sample_state = Inr (x, s')"
    by auto
  with tr js v have "filter is_OpCall (trace s') =
        [OpCall 0 (JSValue (Ptr 1) JS_TAG_OBJECT) JS_NULL
           [JSValue (Ptr 2) JS_TAG_STRING, JSValue (Ptr 1) JS_TAG_OBJECT] (JSValue (Ptr 2) JS_TAG_STRING)]"
    by (simp add: new_ops_def sample_state_def sample_handle_def)
  with r h1 sample_convertible show ?thesis by blast
qed

text \<open>
  Claim C8 as stated fails in three ways. A call that the first loop rejects invokes
  nothing, though the handle has an attached context. A call with a text argument
  that has no UTF-8 encoding (a lone surrogate) passes the first loop and ends in a
  dereference of \<^verbatim>\<open>NULL\<close> before any invocation. And where the engine is invoked, \<^verbatim>\<open>this\<close>
  is \<^verbatim>\<open>JS_NULL\<close>: not the undefined constant, and not the global object.
\<close>

theorem call_is_not_always_an_invocation_with_undefined_this:
  "od_context sample_handle = Some 0 \<and>
   map_option trace (final_state (object_call sample_engine sample_handle [PyOther ''dict''] sample_state)) =
     Some [] \<and>
   object_call sample_engine sample_handle [PyUnicode [55296]] sample_state = Inl NULL_dereference \<and>
   map_option (\<lambda>s'. filter is_OpCall (trace s'))
     (final_state (object_call sample_engine sample_handle [] sample_state)) =
     Some [OpCall 0 (JSValue (Ptr 1) JS_TAG_OBJECT) JS_NULL [] JS_UNDEFINED] \<and>
   JS_NULL \<noteq> JS_UNDEFINED \<and>
   JS_NULL \<noteq> fst (JS_GetGlobalObject_impl sample_engine 0 (js sample_state))"
proof -
  have a: "od_context sample_handle = Some 0" by (simp add: sample_handle_def)
  have b: "map_option trace (final_state (object_call sample_engine sample_handle [PyOther ''dict''] sample_state)) =
     Some []"
    by (simp add: object_call_def sample_handle_def final_state_def sample_state_def)
  have e: "utf8_encode [55296] = None"
    by (simp add: utf8_encode_char_def surrogate_def)
  have u: "PyUnicode_AsUTF8 (PyUnicode [55296]) sample_state =
      (None, PyErr_Format UnicodeEncodeError [] sample_state)"
    by (simp add: PyUnicode_AsUTF8_def e del: utf8_encode.simps)
  have c: "object_call sample_engine sample_handle [PyUnicode [55296]] sample_state = Inl NULL_dereference"
    by (simp add: object_call_def sample_handle_def convert_item_def u)
  have d: "map_option (\<lambda>s'. filter is_OpCall (trace s'))
     (final_state (object_call sample_engine sample_handle [] sample_state)) =
     Some [OpCall 0 (JSValue (Ptr 1) JS_TAG_OBJECT) JS_NULL [] JS_UNDEFINED]"
    by (simp add: object_call_def sample_handle_def final_state_def JS_Call_def sample_engine_def
        quickjs_to_python_def to_python_by_tag_def JS_UNDEFINED_def JS_MKVAL_def JS_VALUE_GET_TAG_def
        sample_state_def)
  have f: "JS_NULL \<noteq> JS_UNDEFINED" by (simp add: JS_NULL_def JS_UNDEFINED_def JS_MKVAL_def)
  have g: "JS_NULL \<noteq> fst (JS_GetGlobalObject_impl sample_engine 0 (js sample_state))"
    by (simp add: JS_NULL_def JS_MKVAL_def sample_engine_def)
  from a b c d f g show ?thesis by blast
qed

text \<open>
  Claim C9. Let the argument at position \<open>i\<close> of a call be a host boolean; it passes the
  boolean check and would pass the integer check as well. Both passes test for a
  boolean first. The first pass accepts it and goes on to the next argument. On a
  handle with an attached context and with convertible arguments, the second pass
  writes at position \<open>i\<close> an engine value with the boolean tag and the payload 1 or 0,
  not one with the integer tag, and the engine is invoked with that value at position
  \<open>i\<close>. And no call, of any handle, with any other arguments, records an invocation of
  the engine with another value at position \<open>i\<close>.
\<close>

theorem boolean_argument_marshalled_as_boolean:
  assumes "i < length args" and "args ! i = Py_Bool b"
  shows "PyBool_Check (args ! i) \<and> PyLong_Check (args ! i) \<and>
         (list_all supported_kind (take i args) \<longrightarrow>
            validate_args 0 args s = validate_args (Suc i) (drop (Suc i) args) s) \<and>
         (od_context self = Some c \<and> list_all convertible args \<longrightarrow>
            (\<exists>jsargs s1 val s2.
               convert_args c args s = Inr (jsargs, s1) \<and>
               jsargs ! i = JS_MKVAL JS_TAG_BOOL (if b then 1 else 0) \<and>
               JS_VALUE_GET_TAG (jsargs ! i) = JS_TAG_BOOL \<and>
               JS_VALUE_GET_TAG (jsargs ! i) \<noteq> JS_TAG_INT \<and>
               JS_Call E c (od_object self) JS_NULL jsargs s1 = (val, s2) \<and>
               trace s2 = trace s1 @ [OpCall c (od_object self) JS_NULL jsargs val] \<and>
               object_call E self args s = quickjs_to_python E c val (free_args c jsargs s2))) \<and>
         (\<forall>x s' d f t argv r.
            object_call E self args s = Inr (x, s') \<and> OpCall d f t argv r \<in> set (new_ops s s') \<longrightarrow>
            argv ! i = JS_MKVAL JS_TAG_BOOL (if b then 1 else 0))"
proof (intro conjI impI allI)
  from assms show "PyBool_Check (args ! i)" "PyLong_Check (args ! i)" by simp_all
next
  assume "list_all supported_kind (take i args)"
  with assms show "validate_args 0 args s = validate_args (Suc i) (drop (Suc i) args) s"
    using validate_args_skip [of i args b 0 s] by simp
next
  assume h: "od_context self = Some c \<and> list_all convertible args"
  then have sup: "list_all supported_kind args"
    by (induction args) (simp_all add: convertible_supported)
  from h convert_args_convertible [of args c s] obtain jsargs s1 where
    cv: "convert_args c args s = Inr (jsargs, s1)" by blast
  let ?call = "JS_Call E c (od_object self) JS_NULL jsargs s1"
  have c2: "?call = (fst ?call, snd ?call)" by simp
  have v: "jsargs ! i = JS_MKVAL JS_TAG_BOOL (if b then 1 else 0)"
    by (rule convert_args_bool [OF cv assms])
  then have tg: "JS_VALUE_GET_TAG (jsargs ! i) = JS_TAG_BOOL" "JS_VALUE_GET_TAG (jsargs ! i) \<noteq> JS_TAG_INT"
    by (simp_all add: JS_MKVAL_def JS_VALUE_GET_TAG_def)
  from h have att: "od_context self = Some c" by simp
  have oc: "object_call E self args s = quickjs_to_python E c (fst ?call) (free_args c jsargs (snd ?call))"
    by (rule object_call_validated [OF att sup cv c2])
  have tr: "trace (snd ?call) = trace s1 @ [OpCall c (od_object self) JS_NULL jsargs (fst ?call)]"
    by (rule JS_Call_fields(1))
  from cv v tg c2 tr oc
  show "\<exists>jsargs s1 val s2.
               convert_args c args s = Inr (jsargs, s1) \<and>
               jsargs ! i = JS_MKVAL JS_TAG_BOOL (if b then 1 else 0) \<and>
               JS_VALUE_GET_TAG (jsargs ! i) = JS_TAG_BOOL \<and>
               JS_VALUE_GET_TAG (jsargs ! i) \<noteq> JS_TAG_INT \<and>
               JS_Call E c (od_object self) JS_NULL jsargs s1 = (val, s2) \<and>
               trace s2 = trace s1 @ [OpCall c (od_object self) JS_NULL jsargs val] \<and>
               object_call E self args s = quickjs_to_python E c val (free_args c jsargs s2)"
    by blast
next
  fix x s' d f t argv r
  assume h: "object_call E self args s = Inr (x, s') \<and> OpCall d f t argv r \<in> set (new_ops s s')"
  then have oc: "object_call E self args s = Inr (x, s')"
    and mem: "OpCall d f t argv r \<in> set (new_ops s s')" by simp_all
  from object_call_effect(1) [OF oc] obtain ops where
    t: "trace s' = trace s @ ops" and
    alt: "filter is_OpCall ops = [] \<or>
            (\<exists>c jsargs s1 val. od_context self = Some c \<and> list_all supported_kind args \<and>
               convert_args c args s = Inr (jsargs, s1) \<and>
               filter is_OpCall ops = [OpCall c (od_object self) JS_NULL jsargs val])"
    by blast
  from t have n: "new_ops s s' = ops" by (rule new_ops_append)
  from mem n have in_f: "OpCall d f t argv r \<in> set (filter is_OpCall ops)" by simp
  from alt show "argv ! i = JS_MKVAL JS_TAG_BOOL (if b then 1 else 0)"
  proof
    assume "filter is_OpCall ops = []"
    with in_f show ?thesis by simp
  next
    assume "\<exists>c jsargs s1 val. od_context self = Some c \<and> list_all supported_kind args \<and>
               convert_args c args s = Inr (jsargs, s1) \<and>
               filter is_OpCall ops = [OpCall c (od_object self) JS_NULL jsargs val]"
    then obtain c' jsargs s1 val where
      cv: "convert_args c' args s = Inr (jsargs, s1)" and
      fo: "filter is_OpCall ops = [OpCall c' (od_object self) JS_NULL jsargs val]"
      by blast
    from in_f fo have "argv = jsargs" by simp
    with convert_args_bool [OF cv assms] show ?thesis by simp
  qed
qed

lemma sample_boolean_conversion:
  "convert_args 0 [PyLong 7, Py_Bool True] sample_state =
     Inr ([JS_MKVAL JS_TAG_INT 7, JS_MKVAL JS_TAG_BOOL 1], sample_state)"
  by (simp add: convert_item_def PyLong_AsLong_def)

theorem boolean_argument_marshalled_as_boolean_witness:
  "(1::nat) < length [PyLong 7, Py_Bool True] \<and> [PyLong 7, Py_Bool True] ! 1 = Py_Bool True \<and>
   PyLong_Check ([PyLong 7, Py_Bool True] ! 1) \<and>
   list_all supported_kind (take 1 [PyLong 7, Py_Bool True]) \<and>
   validate_args 0 [PyLong 7, Py_Bool True] sample_state = validate_args 2 [] sample_state \<and>
   od_context sample_handle = Some 0 \<and> list_all convertible [PyLong 7, Py_Bool True] \<and>
   (\<exists>x s' jsargs val.
      object_call sample_engine sample_handle [PyLong 7, Py_Bool True] sample_state = Inr (x, s') \<and>
      OpCall 0 (od_object sample_handle) JS_NULL jsargs val \<in> set (new_ops sample_state s') \<and>
      jsargs ! 1 = JS_MKVAL JS_TAG_BOOL 1 \<and>
      JS_VALUE_GET_TAG (jsargs ! 1) \<noteq> JS_TAG_INT)"
proof -
  let ?args = "[PyLong 7, Py_Bool True]"
  have h1: "(1::nat) < length ?args" by simp
  have h2: "?args ! 1 = Py_Bool True" by simp
  have h3: "list_all supported_kind (take 1 ?args)" by (simp add: supported_kind_def)
  have h4: "od_context sample_handle = Some 0" by (simp add: sample_handle_def)
  have h5: "list_all convertible ?args" by simp
  note th = boolean_argument_marshalled_as_boolean [OF h1 h2, of sample_state sample_handle 0 sample_engine]
  from th h3 have v: "validate_args 0 ?args sample_state = validate_args 2 [] sample_state"
    by (simp del: validate_args.simps add: numeral_2_eq_2)
  from th h4 h5 obtain jsargs s1 val s2 where
    cv: "convert_args 0 ?args sample_state = Inr (jsargs, s1)" and
    bl: "jsargs ! 1 = JS_MKVAL JS_TAG_BOOL 1" and
    ni: "JS_VALUE_GET_TAG (jsargs ! 1) \<noteq> JS_TAG_INT" and
    ca: "JS_Call sample_engine 0 (od_object sample_handle) JS_NULL jsargs s1 = (val, s2)" and
    tr: "trace s2 = trace s1 @ [OpCall 0 (od_object sample_handle) JS_NULL jsargs val]" and
    oc: "object_call sample_engine sample_handle ?args sample_state =
           quickjs_to_python sample_engine 0 val (free_args 0 jsargs s2)"
    by (auto simp del: convert_args.simps)
  from cv sample_boolean_conversion have js: "jsargs = [JS_MKVAL JS_TAG_INT 7, JS_MKVAL JS_TAG_BOOL 1]"
    and s1: "s1 = sample_state" by simp_all
  from ca js have val: "val = JS_MKVAL JS_TAG_INT 7"
    by (simp add: JS_Call_def sample_engine_def)
  have "\<exists>x s'. quickjs_to_python sample_engine 0 val (free_args 0 jsargs s2) = Inr (x, s')"
    by (simp add: val quickjs_to_python_def to_python_by_tag_def JS_MKVAL_def JS_VALUE_GET_TAG_def)
  with oc obtain x s' where
    r: "object_call sample_engine sample_handle ?args sample_state = Inr (x, s')" and
    q: "quickjs_to_python sample_engine 0 val (free_args 0 jsargs s2) = Inr (x, s')"
    by auto
  from quickjs_to_python_effect(1) [OF q] obtain o3 where
    o3: "trace s' = trace (free_args 0 jsargs s2) @ o3" by blast
  have "trace s' = trace sample_state @
      ([OpCall 0 (od_object sample_handle) JS_NULL jsargs val] @ map (OpFreeValue 0) jsargs @ o3)"
    using o3 tr s1 by (simp add: free_args_trace)
  then have "new_ops sample_state s' =
      [OpCall 0 (od_object sample_handle) JS_NULL jsargs val] @ map (OpFreeValue 0) jsargs @ o3"
    by (rule new_ops_append)
  then have mem: "OpCall 0 (od_object sample_handle) JS_NULL jsargs val \<in> set (new_ops sample_state s')"
    by simp
  from r mem bl ni have
    "\<exists>x s' jsargs val.
      object_call sample_engine sample_handle ?args sample_state = Inr (x, s') \<and>
      OpCall 0 (od_object sample_handle) JS_NULL jsargs val \<in> set (new_ops sample_state s') \<and>
      jsargs ! 1 = JS_MKVAL JS_TAG_BOOL 1 \<and>
      JS_VALUE_GET_TAG (jsargs ! 1) \<noteq> JS_TAG_INT"
    by blast
  with h1 h2 h3 v h4 h5 show ?thesis by simp
qed

section \<open>Round trips of primitive values\<close>

lemma int32_roundtrip:
  "- (2 ^ 31) \<le> n \<Longrightarrow> n < 2 ^ 31 \<Longrightarrow> sint (ucast (word_of_int n :: 64 word) :: 32 word) = n"
  by (simp add: ucast_down_wi is_down sint_sbintrunc' signed_take_bit_int_eq_self)

lemma c_str_id: "CHR 0x00 \<notin> set t \<Longrightarrow> c_str t = t"
  by (auto simp: c_str_def takeWhile_eq_all_conv)

text \<open>A text with a UTF-8 encoding and no code point 0 crosses the boundary and comes back.\<close>

lemma roundtrip_text:
  assumes e: "utf8_encode t = Some bs" and z: "0 \<notin> set t"
  shows "returned (roundtrip E c (PyUnicode t) s) = Some (PyUnicode t)"
proof -
  from utf8_encode_no_NUL [OF e z] have cs: "c_str bs = bs" by (rule c_str_id)
  from utf8_decode_encode [OF e] have d: "utf8_decode bs = Some t" .
  have u: "PyUnicode_AsUTF8 (PyUnicode t) s = (Some bs, s)"
    by (simp add: PyUnicode_AsUTF8_def e)
  let ?n = "JS_NewString c bs s"
  have v: "fst ?n = JSValue (Ptr (next_ptr (js s))) JS_TAG_STRING"
    by (rule JS_NewString_fields(1))
  have sd: "str_data (js (snd ?n)) (next_ptr (js s)) = bs"
    by (simp add: JS_NewString_fields(6) cs)
  have ci: "convert_item c (PyUnicode t) s = Inr (fst ?n, snd ?n)"
    by (simp add: convert_item_def u)
  have tc: "JS_ToCString c (fst ?n) (snd ?n) = (Some bs, log_op (OpToCString c (fst ?n)) (snd ?n))"
    by (simp add: JS_ToCString_def v JS_VALUE_GET_TAG_def JS_VALUE_GET_PTR_def sd)
  have bv: "Py_BuildValue_s (Some bs) s' = (Some (PyUnicode t), s')" for s'
    by (simp add: Py_BuildValue_s_def cs d)
  have "to_python_by_tag E c (fst ?n) (snd ?n) =
      Inr (Some (PyUnicode t), JS_FreeCString c (log_op (OpToCString c (fst ?n)) (snd ?n)))"
    by (simp add: to_python_by_tag_def v JS_VALUE_GET_TAG_def tc [unfolded v] bv)
  then show ?thesis
    by (simp add: roundtrip_def ci quickjs_to_python_def returned_def split_def)
qed

text \<open>
  Claim C1, as amended. A boolean, an integer that fits 32 bits (signed), a double, the
  \<^verbatim>\<open>None\<close> value and a text that has a UTF-8 encoding (no surrogate code point) and no
  code point 0 each come back as the same host value when they are marshaled as a call
  argument and the engine value is converted back. (A double is compared by its bits.)
\<close>

theorem roundtrip_exact_primitive:
  "exact_primitive v \<Longrightarrow> returned (roundtrip E c v s) = Some v"
proof (cases v)
  case (Py_Bool b)
  then show ?thesis
    by (simp add: roundtrip_def convert_item_def quickjs_to_python_def to_python_by_tag_def
        JS_MKVAL_def JS_VALUE_GET_TAG_def JS_VALUE_GET_BOOL_def JS_VALUE_GET_INT_def returned_def)
next
  case (PyLong n)
  assume "exact_primitive v"
  with PyLong have r: "- (2 ^ 31) \<le> n" "n < 2 ^ 31" by simp_all
  then have "- (2 ^ 63) \<le> n" "n < 2 ^ 63" by simp_all
  with PyLong r show ?thesis
    by (simp add: roundtrip_def convert_item_def quickjs_to_python_def to_python_by_tag_def
        PyLong_AsLong_def int32_roundtrip
        JS_MKVAL_def JS_VALUE_GET_TAG_def JS_VALUE_GET_INT_def returned_def)
next
  case (PyFloat d)
  then show ?thesis
    by (simp add: roundtrip_def convert_item_def quickjs_to_python_def to_python_by_tag_def
        JS_NewFloat64_def PyFloat_AsDouble_def JS_VALUE_GET_FLOAT64_def
        JS_MKVAL_def JS_VALUE_GET_TAG_def returned_def)
next
  case Py_None
  then show ?thesis
    by (simp add: roundtrip_def convert_item_def quickjs_to_python_def to_python_by_tag_def
        JS_NULL_def JS_MKVAL_def JS_VALUE_GET_TAG_def returned_def)
next
  case (PyUnicode t)
  assume "exact_primitive v"
  with PyUnicode obtain bs where "utf8_encode t = Some bs" "0 \<notin> set t" by auto
  with PyUnicode show ?thesis by (simp add: roundtrip_text)
next
  case (PyObject_Object d)
  assume "exact_primitive v"
  with PyObject_Object show ?thesis by simp
next
  case (PyOther x)
  assume "exact_primitive v"
  with PyOther show ?thesis by simp
qed

lemma sample_text_encodes: "utf8_encode [104, 233, 8364] \<noteq> None"
  by (simp add: utf8_encode_char_def surrogate_def)

theorem roundtrip_exact_primitive_witness:
  "exact_primitive (PyLong (- 5)) \<and> exact_primitive (PyUnicode [104, 233, 8364]) \<and>
   returned (roundtrip sample_engine 0 (PyLong (- 5)) sample_state) = Some (PyLong (- 5)) \<and>
   returned (roundtrip sample_engine 0 (PyUnicode [104, 233, 8364]) sample_state) =
     Some (PyUnicode [104, 233, 8364])"
proof -
  have a: "exact_primitive (PyLong (- 5))" by simp
  have b: "exact_primitive (PyUnicode [104, 233, 8364])"
    using sample_text_encodes by (simp del: utf8_encode.simps)
  from roundtrip_exact_primitive [OF a, of sample_engine 0 sample_state]
    roundtrip_exact_primitive [OF b, of sample_engine 0 sample_state] a b
  show ?thesis by blast
qed

text \<open>
  Claim C1 as stated fails in three ways. An integer outside the 32-bit range: the
  engine integer is the \<^verbatim>\<open>int32\<close> member of the value, so \<open>2\<^sup>3\<^sup>1\<close> comes back as \<open>- 2\<^sup>3\<^sup>1\<close>. A text
  with a code point 0: it crosses the boundary as a C string and is cut there. A text
  with a lone surrogate: it has no UTF-8 encoding, \<^verbatim>\<open>PyUnicode_AsUTF8\<close> returns \<^verbatim>\<open>NULL\<close>, and
  \<^verbatim>\<open>JS_NewString\<close> dereferences it.
\<close>

theorem roundtrip_fails_outside_exact_primitives:
  "returned (roundtrip sample_engine 0 (PyLong 2147483648) sample_state) = Some (PyLong (- 2147483648)) \<and>
   returned (roundtrip sample_engine 0 (PyUnicode [97, 0, 98]) sample_state) = Some (PyUnicode [97]) \<and>
   roundtrip sample_engine 0 (PyUnicode [55296]) sample_state = Inl NULL_dereference \<and>
   returned (roundtrip sample_engine 0 (PyUnicode [55296]) sample_state) = None"
proof -
  have a: "returned (roundtrip sample_engine 0 (PyLong 2147483648) sample_state) = Some (PyLong (- 2147483648))"
    by (simp add: roundtrip_def convert_item_def quickjs_to_python_def to_python_by_tag_def
        PyLong_AsLong_def
        JS_MKVAL_def JS_VALUE_GET_TAG_def JS_VALUE_GET_INT_def returned_def)
  have e: "utf8_encode [97, 0, 98] = Some [CHR ''a'', CHR 0x00, CHR ''b'']"
    using utf8_encode_ascii [of "[CHR ''a'', CHR 0x00, CHR ''b'']"] by (simp add: ascii_def)
  have d: "utf8_decode ''a'' = Some [97]"
    using utf8_decode_encode [of "[97]" "''a''"] utf8_encode_ascii [of "''a''"] by (simp add: ascii_def)
  have u: "PyUnicode_AsUTF8 (PyUnicode [97, 0, 98]) s = (Some [CHR ''a'', CHR 0x00, CHR ''b''], s)" for s
    by (simp add: PyUnicode_AsUTF8_def e del: utf8_encode.simps)
  have cs: "c_str [CHR ''a'', CHR 0x00, CHR ''b''] = ''a''" by (simp add: c_str_def)
  let ?bs = "[CHR ''a'', CHR 0x00, CHR ''b'']"
  let ?n = "JS_NewString 0 ?bs sample_state"
  have v: "fst ?n = JSValue (Ptr (next_ptr (js sample_state))) JS_TAG_STRING"
    by (rule JS_NewString_fields(1))
  have sd: "str_data (js (snd ?n)) (next_ptr (js sample_state)) = ''a''"
    by (simp add: JS_NewString_fields(6) cs)
  have ci: "convert_item 0 (PyUnicode [97, 0, 98]) sample_state = Inr (fst ?n, snd ?n)"
    by (simp add: convert_item_def u)
  have tc: "JS_ToCString 0 (fst ?n) (snd ?n) = (Some ''a'', log_op (OpToCString 0 (fst ?n)) (snd ?n))"
    by (simp add: JS_ToCString_def v JS_VALUE_GET_TAG_def JS_VALUE_GET_PTR_def sd)
  have bv: "Py_BuildValue_s (Some ''a'') s' = (Some (PyUnicode [97]), s')" for s'
    by (simp add: Py_BuildValue_s_def c_str_def d)
  have "to_python_by_tag sample_engine 0 (fst ?n) (snd ?n) =
      Inr (Some (PyUnicode [97]), JS_FreeCString 0 (log_op (OpToCString 0 (fst ?n)) (snd ?n)))"
    by (simp add: to_python_by_tag_def v JS_VALUE_GET_TAG_def tc [unfolded v] bv)
  then have b: "returned (roundtrip sample_engine 0 (PyUnicode [97, 0, 98]) sample_state) = Some (PyUnicode [97])"
    by (simp add: roundtrip_def ci quickjs_to_python_def returned_def split_def)
  have e2: "utf8_encode [55296] = None"
    by (simp add: utf8_encode_char_def surrogate_def)
  have u2: "PyUnicode_AsUTF8 (PyUnicode [55296]) sample_state =
      (None, PyErr_Format UnicodeEncodeError [] sample_state)"
    by (simp add: PyUnicode_AsUTF8_def e2 del: utf8_encode.simps)
  have c: "roundtrip sample_engine 0 (PyUnicode [55296]) sample_state = Inl NULL_dereference"
    by (simp add: roundtrip_def convert_item_def u2)
  from a b c show ?thesis by (simp add: returned_def)
qed

section \<open>Translating an engine exception\<close>

text \<open>
  Where the engine's string conversion of the pending exception yields a string (in
  cell \<open>p\<close>, leaving the engine state \<open>j\<close>), the conversion of the exception marker returns
  \<^verbatim>\<open>NULL\<close> with a \<^verbatim>\<open>JSException\<close> whose message is that string, read as a C string. The slot
  is fetched and cleared once, before the string conversion; the module does not touch
  it afterwards, so it is in the end what the string conversion left. The string and
  the exception are each freed once.
\<close>

lemma exception_translation:
  assumes tg: "JS_VALUE_GET_TAG val = JS_TAG_EXCEPTION"
    and ts: "JS_ToString_impl E c (pending c (js s)) (drained c (js s)) = (JSValue (Ptr p) JS_TAG_STRING, j)"
  shows "\<exists>s'. quickjs_to_python E c val s = Inr (None, s') \<and>
           err_indicator s' = Some (JSException, c_str (str_data j p)) \<and>
           current_exception (js s') = current_exception j \<and>
           trace s' = trace s @
             [OpGetException c (pending c (js s)),
              OpToString c (pending c (js s)) (JSValue (Ptr p) JS_TAG_STRING),
              OpToCString c (JSValue (Ptr p) JS_TAG_STRING), OpFreeCString c,
              OpFreeValue c (JSValue (Ptr p) JS_TAG_STRING),
              OpFreeValue c (pending c (js s)), OpFreeValue c val] \<and>
           (\<forall>q. ref_count (js s') q =
                  ref_count j q - int (refs_to q [JSValue (Ptr p) JS_TAG_STRING, pending c (js s)]))"
proof -
  from tg have nr: "\<not> JS_VALUE_HAS_REF_COUNT val"
    by (cases val) (simp add: JS_VALUE_GET_TAG_def)
  from tg ts nr show ?thesis
    by (simp add: quickjs_to_python_def to_python_by_tag_def JS_GetException_eq JS_ToString_def
        JS_ToCString_def JS_FreeCString_def JS_VALUE_GET_TAG_def JS_VALUE_GET_PTR_def
        JS_FreeValue_ref_count JS_FreeValue_fields PyErr_Format_fields log_op_fields refs_to_simps)
qed

text \<open>
  Where the string conversion does not yield a string, \<^verbatim>\<open>JS_ToCString\<close> returns \<^verbatim>\<open>NULL\<close>, and
  the conversion of the exception marker ends in the dereference of it.
\<close>

lemma failed_string_conversion:
  assumes tg: "JS_VALUE_GET_TAG val = JS_TAG_EXCEPTION"
    and ts: "JS_ToString_impl E c (pending c (js s)) (drained c (js s)) = (e, j)"
    and ne: "JS_VALUE_GET_TAG e \<noteq> JS_TAG_STRING"
  shows "quickjs_to_python E c val s = Inl NULL_dereference"
  using assms
  by (simp add: quickjs_to_python_def to_python_by_tag_def JS_GetException_eq JS_ToString_def
      JS_ToCString_def)

text \<open>
  Claim C3 fails in the code. At the script \<^verbatim>\<open>throw Symbol()\<close> the evaluation produces the
  exception marker, the pending symbol is fetched, its string conversion throws and
  returns the exception marker, \<^verbatim>\<open>JS_ToCString\<close> of that marker is \<^verbatim>\<open>NULL\<close>, and \<^verbatim>\<open>PyErr_Format\<close>
  reads it for \<^verbatim>\<open>%s\<close>: the operation ends in a dereference of \<^verbatim>\<open>NULL\<close>. It returns nothing,
  raises no host error, and leaves no state in which the context could be used again.
\<close>

theorem thrown_symbol_is_not_translated:
  "PyArg_ParseTuple_s [PyUnicode (ascii ''throw Symbol()'')] sample_state =
     (Some ''throw Symbol()'', sample_state) \<and>
   fst (JS_Eval throwing_engine 0 ''throw Symbol()'' sample_state) = JS_EXCEPTION \<and>
   run throwing_engine 0 (Eval [PyUnicode (ascii ''throw Symbol()'')]) sample_state = Inl NULL_dereference \<and>
   raised (run throwing_engine 0 (Eval [PyUnicode (ascii ''throw Symbol()'')]) sample_state) = None \<and>
   returned (run throwing_engine 0 (Eval [PyUnicode (ascii ''throw Symbol()'')]) sample_state) = None \<and>
   final_state (run throwing_engine 0 (Eval [PyUnicode (ascii ''throw Symbol()'')]) sample_state) = None"
proof -
  let ?code = "''throw Symbol()''"
  have enc: "utf8_encode (ascii ?code) = Some ?code"
    by (rule utf8_encode_ascii) simp
  have pa: "PyArg_ParseTuple_s [PyUnicode (ascii ?code)] sample_state = (Some ?code, sample_state)"
    by (simp add: PyArg_ParseTuple_s_def enc)
  let ?ev = "JS_Eval throwing_engine 0 ?code sample_state"
  have ev: "fst ?ev = JS_EXCEPTION"
    by (simp add: JS_Eval_def throwing_engine_def)
  have tg: "JS_VALUE_GET_TAG (fst ?ev) = JS_TAG_EXCEPTION"
    by (simp add: ev JS_EXCEPTION_def JS_MKVAL_def JS_VALUE_GET_TAG_def)
  let ?ts = "JS_ToString_impl throwing_engine 0 (pending 0 (js (snd ?ev))) (drained 0 (js (snd ?ev)))"
  have ts: "?ts = (fst ?ts, snd ?ts)" by simp
  have ne: "JS_VALUE_GET_TAG (fst ?ts) \<noteq> JS_TAG_STRING"
    by (simp add: throwing_engine_def JS_EXCEPTION_def JS_MKVAL_def JS_VALUE_GET_TAG_def)
  have q: "quickjs_to_python throwing_engine 0 (fst ?ev) (snd ?ev) = Inl NULL_dereference"
    by (rule failed_string_conversion [OF tg ts ne])
  have r: "run throwing_engine 0 (Eval [PyUnicode (ascii ?code)]) sample_state = Inl NULL_dereference"
    by (simp add: run_def context_eval_def pa split_def q)
  from pa ev r show ?thesis
    by (simp add: raised_def returned_def final_state_def)
qed

section \<open>Lifetime of a handle\<close>

lemma handle_creation:
  assumes "JS_VALUE_GET_TAG val = JS_TAG_OBJECT"
  shows "quickjs_to_python E c val s =
           Inr (Some (PyObject_Object \<lparr>od_context = Some c, od_object = val\<rparr>),
                JS_FreeValue c val (snd (JS_DupValue c val (Py_INCREF c s))))"
    and "ob_refcnt (JS_FreeValue c val (snd (JS_DupValue c val (Py_INCREF c s)))) =
           (ob_refcnt s)(c := ob_refcnt s c + 1)"
    and "trace (JS_FreeValue c val (snd (JS_DupValue c val (Py_INCREF c s)))) =
           trace s @ [OpDupValue c val, OpFreeValue c val]"
proof -
  show "quickjs_to_python E c val s =
           Inr (Some (PyObject_Object \<lparr>od_context = Some c, od_object = val\<rparr>),
                JS_FreeValue c val (snd (JS_DupValue c val (Py_INCREF c s))))"
    using assms
    by (simp add: quickjs_to_python_def to_python_by_tag_def split_def Let_def object_new_def)
  show "ob_refcnt (JS_FreeValue c val (snd (JS_DupValue c val (Py_INCREF c s)))) =
           (ob_refcnt s)(c := ob_refcnt s c + 1)"
    by (simp add: Py_INCREF_def)
  show "trace (JS_FreeValue c val (snd (JS_DupValue c val (Py_INCREF c s)))) =
           trace s @ [OpDupValue c val, OpFreeValue c val]"
    by (simp add: Py_INCREF_def)
qed

lemma handle_creation_ref_count:
  "ref_count (js (JS_FreeValue c val (snd (JS_DupValue c val (Py_INCREF c s))))) p = ref_count (js s) p"
  by (simp add: JS_FreeValue_ref_count JS_DupValue_ref_count Py_INCREF_def)

lemma Py_DECREF_fields:
  "ob_refcnt (Py_DECREF c s) = (ob_refcnt s)(c := ob_refcnt s c - 1)"
  "js (Py_DECREF c s) = js s"
  "trace (Py_DECREF c s) = trace s @ (if ob_refcnt s c = 1 then [OpFreeContext c, OpFreeRuntime c] else [])"
  by (simp_all add: Py_DECREF_def context_dealloc_def Let_def)

lemma handle_destruction:
  assumes "od_context h = Some c"
  shows "ob_refcnt (object_dealloc h s) = (ob_refcnt s)(c := ob_refcnt s c - 1)"
    and "trace (object_dealloc h s) =
           trace s @ OpFreeValue c (od_object h) #
             (if ob_refcnt s c = 1 then [OpFreeContext c, OpFreeRuntime c] else [])"
    and "ref_count (js (object_dealloc h s)) p =
           ref_count (js s) p - int (refs_to p [od_object h])"
    and "held p (new_ops s (object_dealloc h s)) = - int (refs_to p [od_object h])"
proof -
  from assms show "ob_refcnt (object_dealloc h s) = (ob_refcnt s)(c := ob_refcnt s c - 1)"
    by (simp add: object_dealloc_def Py_DECREF_fields)
  from assms show t: "trace (object_dealloc h s) =
           trace s @ OpFreeValue c (od_object h) #
             (if ob_refcnt s c = 1 then [OpFreeContext c, OpFreeRuntime c] else [])"
    by (simp add: object_dealloc_def Py_DECREF_fields)
  from assms show "ref_count (js (object_dealloc h s)) p =
           ref_count (js s) p - int (refs_to p [od_object h])"
    by (simp add: object_dealloc_def Py_DECREF_fields JS_FreeValue_ref_count refs_to_simps)
  from new_ops_append [OF t] show "held p (new_ops s (object_dealloc h s)) = - int (refs_to p [od_object h])"
    by (simp add: held_simps)
qed

lemma run_event_refcnt:
  "ob_refcnt (run_event e s) c = ob_refcnt s c - (if releases c e then 1 else 0)"
  by (cases e) (auto simp: object_dealloc_def Py_DECREF_fields split: option.splits)

lemma run_event_destroyed:
  "destroyed c (run_event e s) \<longleftrightarrow> destroyed c s \<or> (releases c e \<and> ob_refcnt s c = 1)"
  by (cases e) (auto simp: destroyed_def object_dealloc_def Py_DECREF_fields split: option.splits)

lemma run_events_destroyed_mono: "destroyed c s \<Longrightarrow> destroyed c (run_events es s)"
  by (induction es arbitrary: s) (simp_all add: run_event_destroyed)

lemma context_destroyed_iff_all_released:
  "0 < ob_refcnt s c \<Longrightarrow> \<not> destroyed c s \<Longrightarrow>
   int (length (filter (releases c) es)) \<le> ob_refcnt s c \<Longrightarrow>
   destroyed c (run_events es s) \<longleftrightarrow> int (length (filter (releases c) es)) = ob_refcnt s c"
proof (induction es arbitrary: s)
  case Nil
  then show ?case by simp
next
  case (Cons e es)
  show ?case
  proof (cases "releases c e \<and> ob_refcnt s c = 1")
    case True
    then have "destroyed c (run_event e s)" by (simp add: run_event_destroyed)
    then have "destroyed c (run_events (e # es) s)" by (simp add: run_events_destroyed_mono)
    moreover from True Cons.prems have "int (length (filter (releases c) (e # es))) = ob_refcnt s c"
      by simp
    ultimately show ?thesis by simp
  next
    case False
    let ?s1 = "run_event e s"
    from False Cons.prems have nd: "\<not> destroyed c ?s1" by (simp add: run_event_destroyed)
    from False Cons.prems have pos: "0 < ob_refcnt ?s1 c"
      by (auto simp: run_event_refcnt)
    from False Cons.prems have le: "int (length (filter (releases c) es)) \<le> ob_refcnt ?s1 c"
      by (auto simp: run_event_refcnt)
    from Cons.IH [OF pos nd le] show ?thesis
      by (auto simp: run_event_refcnt)
  qed
qed

text \<open>
  A program of requests: the module's balance of references to a cell is the number of
  handles on that cell which the requests returned, and no host reference count falls.
\<close>

lemma run_trace:
  assumes "run E c r s = Inr (x, s')"
  shows "\<exists>ops. trace s' = trace s @ ops"
proof (cases r)
  case (Eval args)
  with assms have e: "context_eval E c args s = Inr (x, s')" by (simp add: run_def)
  from context_eval_effect(1) [OF e] show ?thesis by blast
next
  case (Get args)
  with assms have e: "context_get E c args s = Inr (x, s')" by (simp add: run_def)
  from context_get_effect(1) [OF e] show ?thesis by blast
next
  case (Call self args)
  with assms have e: "object_call E self args s = Inr (x, s')" by (simp add: run_def)
  from object_call_effect(1) [OF e] show ?thesis by blast
next
  case (Json self)
  with assms have e: "object_json E self s = Inr (x, s')" by (simp add: run_def)
  from object_json_effect(1) [OF e] show ?thesis by blast
qed

lemma run_requests_effect:
  "run_requests E rs s = Inr (xs, s') \<Longrightarrow>
   (\<exists>ops. trace s' = trace s @ ops \<and>
          (\<forall>p. held p ops = int (refs_to p (concat (map handles_of xs))))) \<and>
   (\<forall>c'. ob_refcnt s c' \<le> ob_refcnt s' c')"
proof (induction rs arbitrary: s xs)
  case Nil
  then have "s' = s" "xs = []" by simp_all
  then have "trace s' = trace s @ [] \<and> (\<forall>p. held p [] = int (refs_to p (concat (map handles_of xs))))"
    by (simp add: held_list refs_to_simps)
  with \<open>s' = s\<close> show ?case by blast
next
  case (Cons a rs)
  obtain c r where a: "a = (c, r)" by (cases a)
  from Cons.prems a obtain x s1 ys where
    r1: "run E c r s = Inr (x, s1)" and
    r2: "run_requests E rs s1 = Inr (ys, s')" and
    xs: "xs = x # ys"
    by (auto split: sum.splits)
  from run_trace [OF r1] obtain o1 where o1: "trace s1 = trace s @ o1" by blast
  from run_effect(1) [OF r1] new_ops_append [OF o1]
  have h1: "\<forall>p. held p o1 = int (refs_to p (handles_of x))" by simp
  from Cons.IH [OF r2] obtain o2 where
    o2: "trace s' = trace s1 @ o2" and
    h2: "\<forall>p. held p o2 = int (refs_to p (concat (map handles_of ys)))" and
    m2: "\<forall>c'. ob_refcnt s1 c' \<le> ob_refcnt s' c'"
    by blast
  from o1 o2 have t: "trace s' = trace s @ (o1 @ o2)" by simp
  from h1 h2 xs have h: "\<forall>p. held p (o1 @ o2) = int (refs_to p (concat (map handles_of xs)))"
    by (simp add: held_append refs_to_simps)
  have m: "\<forall>c'. ob_refcnt s c' \<le> ob_refcnt s' c'"
  proof
    fix c'
    from run_effect(2) [OF r1, of c'] m2 show "ob_refcnt s c' \<le> ob_refcnt s' c'"
      by (meson order_trans)
  qed
  from t h m show ?case by blast
qed

text \<open>
  Claim C5. A handle is created by \<^verbatim>\<open>quickjs_to_python\<close> for an engine value with the
  object tag. The creation raises the host reference count of the context by one and
  duplicates the engine value once (the reference it consumes is freed, so the handle
  takes its place in the counter of the cell). While the handle lives, the module gives
  up no reference that a handle holds: over any request (an evaluation, a read of a
  global, a call, a JSON conversion) and over any program of requests, the references
  to a cell that the module receives, less those it frees, are exactly the handles on
  that cell which it returns, and the host reference count of no context falls. The
  destruction of the handle frees the wrapped value once and lowers the reference count
  of the context by one, and nothing else; it tears the context down exactly when that
  was the last reference. Hence, for any sequence of handle destructions and of
  releases of the host's own references, as long as each release is of a reference
  that is held: the context is torn down if and only if every reference to it has
  been released, so not while the reference of a live handle is outstanding.
\<close>

theorem handle_holds_context_and_value:
  "(JS_VALUE_GET_TAG val = JS_TAG_OBJECT \<longrightarrow>
      (\<exists>s'. quickjs_to_python E c val s =
              Inr (Some (PyObject_Object \<lparr>od_context = Some c, od_object = val\<rparr>), s') \<and>
            ob_refcnt s' = (ob_refcnt s)(c := ob_refcnt s c + 1) \<and>
            trace s' = trace s @ [OpDupValue c val, OpFreeValue c val] \<and>
            ref_count (js s') = ref_count (js s))) \<and>
   (\<forall>x s'. run E c0 r s = Inr (x, s') \<longrightarrow>
      ob_refcnt s c \<le> ob_refcnt s' c \<and>
      held p (new_ops s s') = int (refs_to p (handles_of x))) \<and>
   (\<forall>x s'. object_json E h s = Inr (x, s') \<longrightarrow>
      ob_refcnt s c \<le> ob_refcnt s' c \<and>
      held p (new_ops s s') = int (refs_to p (handles_of x))) \<and>
   (\<forall>xs s'. run_requests E rs s = Inr (xs, s') \<longrightarrow>
      ob_refcnt s c \<le> ob_refcnt s' c \<and>
      held p (new_ops s s') = int (refs_to p (concat (map handles_of xs)))) \<and>
   (od_context h = Some c \<longrightarrow>
      ob_refcnt (object_dealloc h s) = (ob_refcnt s)(c := ob_refcnt s c - 1) \<and>
      trace (object_dealloc h s) =
        trace s @ OpFreeValue c (od_object h) #
          (if ob_refcnt s c = 1 then [OpFreeContext c, OpFreeRuntime c] else []) \<and>
      held p (new_ops s (object_dealloc h s)) = - int (refs_to p [od_object h]) \<and>
      (\<forall>q. ref_count (js (object_dealloc h s)) q = ref_count (js s) q - int (refs_to q [od_object h]))) \<and>
   (0 < ob_refcnt s c \<and> \<not> destroyed c s \<and> int (length (filter (releases c) es)) \<le> ob_refcnt s c \<longrightarrow>
      (destroyed c (run_events es s) \<longleftrightarrow> int (length (filter (releases c) es)) = ob_refcnt s c))"
proof (intro conjI impI allI)
  assume tg: "JS_VALUE_GET_TAG val = JS_TAG_OBJECT"
  let ?s' = "JS_FreeValue c val (snd (JS_DupValue c val (Py_INCREF c s)))"
  have "ref_count (js ?s') = ref_count (js s)"
    by (rule ext) (rule handle_creation_ref_count)
  with handle_creation(1) [OF tg, of E c s] handle_creation(2) [OF tg, of c s]
    handle_creation(3) [OF tg, of c s]
  show "\<exists>s'. quickjs_to_python E c val s =
              Inr (Some (PyObject_Object \<lparr>od_context = Some c, od_object = val\<rparr>), s') \<and>
            ob_refcnt s' = (ob_refcnt s)(c := ob_refcnt s c + 1) \<and>
            trace s' = trace s @ [OpDupValue c val, OpFreeValue c val] \<and>
            ref_count (js s') = ref_count (js s)"
    by blast
next
  fix x s' assume "run E c0 r s = Inr (x, s')"
  then show "ob_refcnt s c \<le> ob_refcnt s' c" by (rule run_effect(2))
next
  fix x s' assume "run E c0 r s = Inr (x, s')"
  then show "held p (new_ops s s') = int (refs_to p (handles_of x))" by (rule run_effect(1))
next
  fix x s' assume "object_json E h s = Inr (x, s')"
  then show "ob_refcnt s c \<le> ob_refcnt s' c" by (rule object_json_effect(2))
next
  fix x s' assume a: "object_json E h s = Inr (x, s')"
  from object_json_effect(1) [OF a] obtain ops where
    "trace s' = trace s @ ops" "\<forall>p. held p ops = int (refs_to p (handles_of x))" by blast
  then show "held p (new_ops s s') = int (refs_to p (handles_of x))"
    by (simp add: new_ops_append)
next
  fix xs s' assume "run_requests E rs s = Inr (xs, s')"
  from run_requests_effect [OF this] show "ob_refcnt s c \<le> ob_refcnt s' c" by blast
next
  fix xs s' assume "run_requests E rs s = Inr (xs, s')"
  from run_requests_effect [OF this] obtain ops where
    "trace s' = trace s @ ops" "\<forall>p. held p ops = int (refs_to p (concat (map handles_of xs)))" by blast
  then show "held p (new_ops s s') = int (refs_to p (concat (map handles_of xs)))"
    by (simp add: new_ops_append)
next
  assume "od_context h = Some c"
  then show "ob_refcnt (object_dealloc h s) = (ob_refcnt s)(c := ob_refcnt s c - 1)"
    by (rule handle_destruction(1))
next
  assume "od_context h = Some c"
  then show "trace (object_dealloc h s) =
        trace s @ OpFreeValue c (od_object h) #
          (if ob_refcnt s c = 1 then [OpFreeContext c, OpFreeRuntime c] else [])"
    by (rule handle_destruction(2))
next
  assume "od_context h = Some c"
  then show "held p (new_ops s (object_dealloc h s)) = - int (refs_to p [od_object h])"
    by (rule handle_destruction(4))
next
  fix q assume "od_context h = Some c"
  then show "ref_count (js (object_dealloc h s)) q = ref_count (js s) q - int (refs_to q [od_object h])"
    by (rule handle_destruction(3))
next
  assume "0 < ob_refcnt s c \<and> \<not> destroyed c s \<and> int (length (filter (releases c) es)) \<le> ob_refcnt s c"
  then show "destroyed c (run_events es s) \<longleftrightarrow> int (length (filter (releases c) es)) = ob_refcnt s c"
    using context_destroyed_iff_all_released [of s c es] by blast
qed

lemma sample_json:
  "object_json sample_engine sample_handle s =
     quickjs_to_python sample_engine 0 (JSValue (Ptr 1) JS_TAG_OBJECT)
       (JS_FreeValue 0 JS_UNDEFINED (JS_FreeValue 0 JS_UNDEFINED
          (JS_FreeValue 0 (JSValue (Ptr 0) JS_TAG_OBJECT)
             (snd (JS_Call sample_engine 0 JS_UNDEFINED JS_UNDEFINED [JSValue (Ptr 1) JS_TAG_OBJECT]
                (snd (JS_GetPropertyStr sample_engine 0 JS_UNDEFINED ''stringify''
                   (snd (JS_GetPropertyStr sample_engine 0 (JSValue (Ptr 0) JS_TAG_OBJECT) ''JSON''
                      (snd (JS_GetGlobalObject sample_engine 0 s)))))))))))"
proof -
  have gl: "fst (JS_GetGlobalObject sample_engine 0 s') = JSValue (Ptr 0) JS_TAG_OBJECT" for s'
    by (simp add: JS_GetGlobalObject_def sample_engine_def)
  have pr: "fst (JS_GetPropertyStr sample_engine 0 obj nm s') = JS_MKVAL JS_TAG_UNDEFINED 0" for obj nm s'
    by (simp add: JS_GetPropertyStr_def sample_engine_def JS_UNDEFINED_def)
  have ca: "fst (JS_Call sample_engine 0 f t [v] s') = v" for f t v s'
    by (simp add: JS_Call_def sample_engine_def)
  show ?thesis
    by (simp add: object_json_def sample_handle_def split_def Let_def gl pr ca JS_UNDEFINED_def)
qed

theorem handle_holds_context_and_value_witness:
  "quickjs_to_python sample_engine 0 (JSValue (Ptr 1) JS_TAG_OBJECT) sample_state =
     Inr (Some (PyObject_Object sample_handle),
          JS_FreeValue 0 (JSValue (Ptr 1) JS_TAG_OBJECT)
            (snd (JS_DupValue 0 (JSValue (Ptr 1) JS_TAG_OBJECT) (Py_INCREF 0 sample_state)))) \<and>
   ob_refcnt (JS_FreeValue 0 (JSValue (Ptr 1) JS_TAG_OBJECT)
            (snd (JS_DupValue 0 (JSValue (Ptr 1) JS_TAG_OBJECT) (Py_INCREF 0 sample_state)))) 0 = 2 \<and>
   (\<exists>s'. run sample_engine 0 (Json sample_handle)
            (JS_FreeValue 0 (JSValue (Ptr 1) JS_TAG_OBJECT)
               (snd (JS_DupValue 0 (JSValue (Ptr 1) JS_TAG_OBJECT) (Py_INCREF 0 sample_state)))) =
          Inr (Some (PyObject_Object sample_handle), s') \<and>
        held 1 (new_ops (JS_FreeValue 0 (JSValue (Ptr 1) JS_TAG_OBJECT)
               (snd (JS_DupValue 0 (JSValue (Ptr 1) JS_TAG_OBJECT) (Py_INCREF 0 sample_state)))) s') = 1 \<and>
        2 \<le> ob_refcnt s' 0) \<and>
   held 1 (new_ops sample_state (object_dealloc sample_handle sample_state)) = - 1 \<and>
   \<not> destroyed 0 (run_events [Release_context 0]
        (JS_FreeValue 0 (JSValue (Ptr 1) JS_TAG_OBJECT)
            (snd (JS_DupValue 0 (JSValue (Ptr 1) JS_TAG_OBJECT) (Py_INCREF 0 sample_state))))) \<and>
   destroyed 0 (run_events [Release_context 0, Destroy_handle sample_handle]
        (JS_FreeValue 0 (JSValue (Ptr 1) JS_TAG_OBJECT)
            (snd (JS_DupValue 0 (JSValue (Ptr 1) JS_TAG_OBJECT) (Py_INCREF 0 sample_state)))))"
proof -
  let ?v = "JSValue (Ptr 1) JS_TAG_OBJECT"
  let ?S = "JS_FreeValue 0 ?v (snd (JS_DupValue 0 ?v (Py_INCREF 0 sample_state)))"
  let ?h = "PyObject_Object sample_handle"
  have tg: "JS_VALUE_GET_TAG ?v = JS_TAG_OBJECT" by (simp add: JS_VALUE_GET_TAG_def)
  have hc: "od_context sample_handle = Some 0" by (simp add: sample_handle_def)
  have sh: "\<lparr>od_context = Some 0, od_object = ?v\<rparr> = sample_handle" by (simp add: sample_handle_def)
  note a = handle_holds_context_and_value [where val = ?v and E = sample_engine and c = 0
      and ?c0.0 = 0 and p = 1 and h = sample_handle]
  from a [where s = sample_state and r = "Eval []" and rs = "[]" and es = "[]"] tg obtain s' where
    q: "quickjs_to_python sample_engine 0 ?v sample_state =
          Inr (Some (PyObject_Object \<lparr>od_context = Some 0, od_object = ?v\<rparr>), s')"
    and rc: "ob_refcnt s' = (ob_refcnt sample_state)(0 := ob_refcnt sample_state 0 + 1)"
    and tr: "trace s' = trace sample_state @ [OpDupValue 0 ?v, OpFreeValue 0 ?v]"
    by blast
  from q tg have s': "s' = ?S"
    by (simp add: quickjs_to_python_def to_python_by_tag_def split_def Let_def)
  from q have q': "quickjs_to_python sample_engine 0 ?v sample_state = Inr (Some ?h, ?S)"
    by (simp only: s' sh)
  from rc have two: "ob_refcnt ?S 0 = 2" by (simp only: s') (simp add: sample_state_def)
  from tr have nd: "\<not> destroyed 0 ?S" by (simp only: s') (simp add: destroyed_def sample_state_def)
  have "\<exists>s1. object_json sample_engine sample_handle ?S = Inr (Some ?h, s1)"
    by (simp only: sample_json handle_creation(1) [OF tg] sh) simp
  then obtain s1 where j: "run sample_engine 0 (Json sample_handle) ?S = Inr (Some ?h, s1)"
    by (auto simp: run_def)
  from a [where s = ?S and r = "Json sample_handle" and rs = "[]" and es = "[]"] j
  have bal: "2 \<le> ob_refcnt s1 0 \<and> held 1 (new_ops ?S s1) = int (refs_to 1 (handles_of (Some ?h)))"
    using two by (metis (no_types, lifting))
  have one: "refs_to 1 (handles_of (Some ?h)) = 1"
    by (simp add: handles_of_def sample_handle_def refs_to_simps JS_VALUE_GET_PTR_def)
  from bal one have bal': "held 1 (new_ops ?S s1) = 1 \<and> 2 \<le> ob_refcnt s1 0" by simp
  have one': "refs_to 1 [od_object sample_handle] = 1"
    by (simp add: sample_handle_def refs_to_simps JS_VALUE_GET_PTR_def)
  from a [where s = sample_state and r = "Eval []" and rs = "[]" and es = "[]"] hc one'
  have de: "held 1 (new_ops sample_state (object_dealloc sample_handle sample_state)) = - 1"
    by simp
  have c1: "int (length (filter (releases 0) [Release_context 0])) \<le> ob_refcnt ?S 0"
    using two by simp
  have c2: "int (length (filter (releases 0) [Release_context 0, Destroy_handle sample_handle])) \<le> ob_refcnt ?S 0"
    using two by (simp add: sample_handle_def)
  from a [where s = ?S and r = "Eval []" and rs = "[]" and es = "[Release_context 0]"] two nd c1
  have r1: "\<not> destroyed 0 (run_events [Release_context 0] ?S)"
    by (simp del: run_events.simps)
  from a [where s = ?S and r = "Eval []" and rs = "[]"
      and es = "[Release_context 0, Destroy_handle sample_handle]"] two nd c2
  have r2: "destroyed 0 (run_events [Release_context 0, Destroy_handle sample_handle] ?S)"
    by (simp del: run_events.simps add: sample_handle_def)
  from j bal' have jr: "\<exists>s'. run sample_engine 0 (Json sample_handle) ?S = Inr (Some ?h, s') \<and>
        held 1 (new_ops ?S s') = 1 \<and> 2 \<le> ob_refcnt s' 0"
    by blast
  from q' two jr de r1 r2 show ?thesis by blast
qed

end
